theory Spec2Isabelle
  imports Complex_Main
begin

section \<open>Three-dimensional vectors\<close>

text \<open>
  The feature code of \<^verbatim>\<open>src/ao/src/eval/feature.cpp\<close> works on
  \<^verbatim>\<open>Eigen::Vector3d\<close>. Coordinates are modelled as exact reals: the
  comparisons of the source (\<^verbatim>\<open>== 0\<close>, \<^verbatim>\<open>!= -1\<close>, \<^verbatim>\<open>!= 1\<close>)
  are kept as exact comparisons, rounding of doubles is not modelled.
\<close>

datatype vec3 = Vec3 (vx: real) (vy: real) (vz: real)

definition dot :: "vec3 \<Rightarrow> vec3 \<Rightarrow> real" where
  "dot a b = vx a * vx b + vy a * vy b + vz a * vz b"

definition cross :: "vec3 \<Rightarrow> vec3 \<Rightarrow> vec3" where
  "cross a b = Vec3 (vy a * vz b - vz a * vy b)
                    (vz a * vx b - vx a * vz b)
                    (vx a * vy b - vy a * vx b)"

definition squaredNorm :: "vec3 \<Rightarrow> real" where
  "squaredNorm a = dot a a"

definition norm_v :: "vec3 \<Rightarrow> real" where
  "norm_v a = sqrt (squaredNorm a)"

text \<open>\<^verbatim>\<open>v /= s\<close>, componentwise.\<close>

definition vdiv :: "vec3 \<Rightarrow> real \<Rightarrow> vec3" where
  "vdiv a s = Vec3 (vx a / s) (vy a / s) (vz a / s)"

text \<open>
  \<^verbatim>\<open>v.normalized()\<close> and \<^verbatim>\<open>v.normalize()\<close>: division by the norm;
  a vector of squared norm zero is returned as it is. (Older versions of Eigen divide
  by zero there and give NaN components; in \<open>checkPlanar\<close> the dot product with such
  a vector is then NaN instead of zero, and the test \<^verbatim>\<open>!= 1\<close> is true either
  way.)
\<close>

definition normalized :: "vec3 \<Rightarrow> vec3" where
  "normalized a = (if 0 < squaredNorm a then vdiv a (sqrt (squaredNorm a)) else a)"

section \<open>Doubles that may be NaN\<close>

text \<open>
  \<^verbatim>\<open>asin\<close> returns NaN outside \<open>[-1, 1]\<close>. A possibly-NaN double is a
  \<open>real option\<close> with \<open>None\<close> for NaN; every comparison with NaN is false, and
  \<^verbatim>\<open>std::min(a, b)\<close> is \<^verbatim>\<open>(b < a) ? b : a\<close>, \<^verbatim>\<open>std::max(a, b)\<close> is
  \<^verbatim>\<open>(a < b) ? b : a\<close>.
\<close>

definition asin_d :: "real \<Rightarrow> real option" where
  "asin_d x = (if - 1 \<le> x \<and> x \<le> 1 then Some (arcsin x) else None)"

fun lt_d :: "real option \<Rightarrow> real option \<Rightarrow> bool" where
  "lt_d (Some a) (Some b) = (a < b)"
| "lt_d _ _ = False"

definition min_d :: "real option \<Rightarrow> real option \<Rightarrow> real option" where
  "min_d a b = (if lt_d b a then b else a)"

definition max_d :: "real option \<Rightarrow> real option \<Rightarrow> real option" where
  "max_d a b = (if lt_d a b then b else a)"

fun sub_d :: "real option \<Rightarrow> real option \<Rightarrow> real option" where
  "sub_d (Some a) (Some b) = Some (a - b)"
| "sub_d _ _ = None"

section \<open>The Feature class\<close>

text \<open>
  Modelled from the spec: the struct \<^verbatim>\<open>Feature::Choice\<close>, declared in the
  missing \<^verbatim>\<open>ao/eval/feature.hpp\<close>, with the members \<^verbatim>\<open>id\<close> (the clause)
  and \<^verbatim>\<open>choice\<close> (the side taken) that \<^verbatim>\<open>feature.cpp\<close> reads.
\<close>

record Choice =
  id' :: nat
  choice :: int

text \<open>
  Modelled from the spec: the data members of the class \<^verbatim>\<open>Feature\<close>, declared
  in the missing \<^verbatim>\<open>ao/eval/feature.hpp\<close>, as \<^verbatim>\<open>feature.cpp\<close> uses them.
  \<open>epsilons\<close> and \<open>choices\<close> are the two lists of the class; \<open>epsilons_by_id\<close> is
  the map \<^verbatim>\<open>_epsilons\<close> from clause id to the epsilon stored for it.
\<close>

record Feature =
  epsilons :: "vec3 list"
  choices :: "Choice list"
  epsilons_by_id :: "nat \<rightharpoonup> vec3"

text \<open>
  Modelled from the spec: the enum \<^verbatim>\<open>Feature::PlanarResult\<close>, declared in the
  missing \<^verbatim>\<open>ao/eval/feature.hpp\<close>, with the three values that
  \<^verbatim>\<open>feature.cpp\<close> names.
\<close>

datatype PlanarResult = PLANAR_FAIL | PLANAR_SUCCESS | NOT_PLANAR

subsection \<open>checkPlanar\<close>

text \<open>
  The \<^verbatim>\<open>while (++itr != epsilons.end())\<close> loop over the epsilons after the
  first one, carrying \<^verbatim>\<open>angle_min\<close> and \<^verbatim>\<open>angle_max\<close>; the final
  comparison with \<^verbatim>\<open>M_PI\<close> is made when the list is exhausted.
\<close>

fun checkPlanar_loop ::
  "vec3 \<Rightarrow> vec3 \<Rightarrow> vec3 list \<Rightarrow> real option \<Rightarrow> real option \<Rightarrow> PlanarResult" where
  "checkPlanar_loop v cross_n [] angle_min angle_max =
     (if lt_d (Some pi) (sub_d angle_max angle_min) then PLANAR_FAIL else PLANAR_SUCCESS)"
| "checkPlanar_loop v cross_n (itr # rest) angle_min angle_max =
     (let c = cross itr v;
          c_n = normalized c
      in if \<bar>dot c_n cross_n\<bar> \<noteq> 1 then NOT_PLANAR
         else let angle = asin_d (norm_v c)
              in checkPlanar_loop v cross_n rest (min_d angle angle_min) (max_d angle angle_max))"

definition checkPlanar :: "Feature \<Rightarrow> vec3 \<Rightarrow> PlanarResult" where
  "checkPlanar f v0 =
     (case epsilons f of
        itr # rest \<Rightarrow>
          if length (epsilons f) < 2 then NOT_PLANAR
          else let v = normalized v0;
                   cross0 = cross itr v;
                   cross_n = normalized cross0;
                   angle = asin_d (norm_v cross0);
                   angle_min = min_d (Some 0) angle;
                   angle_max = max_d (Some 0) angle
               in checkPlanar_loop v cross_n rest angle_min angle_max
      | [] \<Rightarrow> NOT_PLANAR)"

subsection \<open>isCompatible\<close>

text \<open>The loop \<^verbatim>\<open>for (const auto& i : epsilons) if (e == i) return true;\<close>\<close>

fun already_present :: "vec3 \<Rightarrow> vec3 list \<Rightarrow> bool" where
  "already_present e [] = False"
| "already_present e (i # rest) = (if e = i then True else already_present e rest)"

text \<open>
  The innermost loop over \<open>c\<close>. Iterators are compared by position, so the list is
  walked together with the positions; \<open>a\<close> and \<open>b\<close> are the positions of the pair,
  \<open>nrm\<close> is \<^verbatim>\<open>a->cross(*b)\<close>. The loop stops as soon as \<open>passed\<close> is false.
\<close>

fun c_loop :: "vec3 \<Rightarrow> nat \<Rightarrow> nat \<Rightarrow> (nat \<times> vec3) list \<Rightarrow> int \<Rightarrow> bool \<Rightarrow> bool" where
  "c_loop nrm a b [] sign passed = passed"
| "c_loop nrm a b ((k, c) # cs) sign passed =
     (if \<not> passed then passed
      else if a = k \<or> b = k then c_loop nrm a b cs sign passed
      else let d = dot nrm c
           in if d < 0 then c_loop nrm a b cs (- 1) (passed \<and> sign \<le> 0)
              else if d > 0 then c_loop nrm a b cs 1 (passed \<and> sign \<ge> 0)
              else c_loop nrm a b cs sign False)"

text \<open>The loop over \<open>b\<close> for a fixed \<open>a\<close> (position \<open>i\<close>, vector \<open>av\<close>).\<close>

fun b_loop :: "vec3 list \<Rightarrow> nat \<Rightarrow> vec3 \<Rightarrow> (nat \<times> vec3) list \<Rightarrow> bool" where
  "b_loop es i av [] = False"
| "b_loop es i av ((j, bv) # bs) =
     (if i = j \<or> dot av bv = - 1 then b_loop es i av bs
      else if c_loop (cross av bv) i j (enumerate 0 es) 0 True then True
      else b_loop es i av bs)"

text \<open>The loop over \<open>a\<close>.\<close>

fun a_loop :: "vec3 list \<Rightarrow> (nat \<times> vec3) list \<Rightarrow> bool" where
  "a_loop es [] = False"
| "a_loop es ((i, av) # as) =
     (if b_loop es i av (enumerate 0 es) then True else a_loop es as)"

definition general_search :: "vec3 list \<Rightarrow> bool" where
  "general_search es = a_loop es (enumerate 0 es)"

text \<open>
  \<open>isCompatible\<close> with the place where it returns: the result of the source is the
  second component.
\<close>

datatype Branch =
  ZERO_VECTOR | NO_EPSILONS | ONE_EPSILON | ALREADY_PRESENT | PLANAR_CASE | GENERAL_CASE

definition isCompatible_at :: "Feature \<Rightarrow> vec3 \<Rightarrow> Branch \<times> bool" where
  "isCompatible_at f e0 =
     (let nrm = norm_v e0
      in if nrm = 0 then (ZERO_VECTOR, False)
         else let e = vdiv e0 nrm
              in if length (epsilons f) = 0 then (NO_EPSILONS, True)
                 else if length (epsilons f) = 1
                      then (ONE_EPSILON, dot e (hd (epsilons f)) \<noteq> - 1)
                 else if already_present e (epsilons f) then (ALREADY_PRESENT, True)
                 else (case checkPlanar f e of
                         PLANAR_FAIL \<Rightarrow> (PLANAR_CASE, False)
                       | PLANAR_SUCCESS \<Rightarrow> (PLANAR_CASE, True)
                       | NOT_PLANAR \<Rightarrow> (GENERAL_CASE, general_search (epsilons f @ [e]))))"

definition isCompatible :: "Feature \<Rightarrow> vec3 \<Rightarrow> bool" where
  "isCompatible f e = snd (isCompatible_at f e)"

subsection \<open>push and push_raw\<close>

definition push_raw :: "Feature \<Rightarrow> Choice \<Rightarrow> vec3 \<Rightarrow> Feature" where
  "push_raw f c v0 =
     (let v = normalized v0
      in f\<lparr>epsilons := epsilons f @ [v],
           choices := choices f @ [c],
           epsilons_by_id := (epsilons_by_id f)(id' c \<mapsto> v)\<rparr>)"

text \<open>\<open>push\<close> returns its boolean together with the updated object.\<close>

definition push :: "Feature \<Rightarrow> vec3 \<Rightarrow> Choice \<Rightarrow> bool \<times> Feature" where
  "push f e0 c =
     (if isCompatible f e0
      then let f1 = f\<lparr>choices := c # choices f,
                      epsilons_by_id := (epsilons_by_id f)(id' c \<mapsto> e0)\<rparr>;
               e = normalized e0
           in if already_present e (epsilons f1) then (True, f1)
              else (True, f1\<lparr>epsilons := epsilons f1 @ [e]\<rparr>)
      else (False, f))"

text \<open>The order \<^verbatim>\<open>operator<\<close> on choices: by clause id, then by the side taken.\<close>

definition choice_less :: "Choice \<Rightarrow> Choice \<Rightarrow> bool" where
  "choice_less a b = (if id' a \<noteq> id' b then id' a < id' b else choice a < choice b)"


text \<open>The default-constructed Feature: nothing stored.\<close>

definition feature0 :: Feature where
  "feature0 = \<lparr>epsilons = [], choices = [], epsilons_by_id = Map.empty\<rparr>"

text \<open>
  The range of the angles \<open>checkPlanar\<close> computes: NaN, or a value between \<open>0\<close> and
  \<open>\<pi>/2\<close>.
\<close>

definition angle_ok :: "real option \<Rightarrow> bool" where
  "angle_ok a = (case a of None \<Rightarrow> True | Some x \<Rightarrow> 0 \<le> x \<and> x \<le> pi / 2)"

subsection \<open>The search over pairs, by positions\<close>

text \<open>
  The innermost loop for the pair at the positions \<open>i\<close> and \<open>j\<close> of the list, as
  \<open>b_loop\<close> runs it: with the normal \<^verbatim>\<open>a->cross(*b)\<close>, \<open>sign = 0\<close> and
  \<open>passed = true\<close>.
\<close>

definition pair_passes :: "vec3 list \<Rightarrow> nat \<Rightarrow> nat \<Rightarrow> bool" where
  "pair_passes es i j = c_loop (cross (es ! i) (es ! j)) i j (enumerate 0 es) 0 True"

text \<open>The list without the element at position \<open>k\<close>.\<close>

definition remove_nth :: "nat \<Rightarrow> 'a list \<Rightarrow> 'a list" where
  "remove_nth k xs = take k xs @ drop (Suc k) xs"

text \<open>A sequence of calls of \<open>push\<close>; the boolean says that every call returned true.\<close>

fun push_all :: "Feature \<Rightarrow> (vec3 \<times> Choice) list \<Rightarrow> bool \<times> Feature" where
  "push_all f [] = (True, f)"
| "push_all f ((e, c) # rest) =
     (case push f e c of (ok, f') \<Rightarrow> (case push_all f' rest of (oks, f'') \<Rightarrow> (ok \<and> oks, f'')))"

text \<open>
  Five unit vectors: the three axes and one vector strictly inside each of the faces
  \<open>xy\<close> and \<open>yz\<close> of the positive octant.
\<close>

definition cone5 :: "vec3 list" where
  "cone5 = [Vec3 1 0 0, Vec3 0 1 0, Vec3 0 0 1, Vec3 (3 / 5) (4 / 5) 0, Vec3 0 (3 / 5) (4 / 5)]"

section \<open>The eigenvalue cutoff of DCTree\<close>

text \<open>
  \<^verbatim>\<open>constexpr static double EIGENVALUE_CUTOFF=0.1f;\<close> in
  \<^verbatim>\<open>src/libfive/include/libfive/render/brep/dc/dc_tree.hpp\<close>. The literal
  \<^verbatim>\<open>0.1f\<close> is the single-precision number nearest to one tenth; storing it in
  a double does not change it. \<open>round_to_binary32\<close> rounds a real in the normal range
  to 24 significant bits (no tie occurs at one tenth, so the rule for ties does not
  matter here).
\<close>

definition round_to_binary32 :: "real \<Rightarrow> real" where
  "round_to_binary32 x =
     (let e = \<lfloor>log 2 \<bar>x\<bar>\<rfloor>
      in of_int (round (x / 2 powr (of_int e - 23))) * 2 powr (of_int e - 23))"

definition EIGENVALUE_CUTOFF :: real where
  "EIGENVALUE_CUTOFF = round_to_binary32 (1 / 10)"

section \<open>The interval evaluator and its tapes\<close>

text \<open>
  \<^verbatim>\<open>src/libfive/include/libfive/eval/eval_interval.hpp\<close> declares
  \<^verbatim>\<open>eval\<close>, \<^verbatim>\<open>intervalAndPush\<close> and \<^verbatim>\<open>push\<close> and the caches
  \<^verbatim>\<open>i\<close> and \<^verbatim>\<open>maybe_nan\<close>; their bodies, the interval type, the clauses
  and the tape are in files that are not among the sources. They are modelled from
  sections 3 and 4.1 of the specification. Interval bounds and point values are reals;
  \<^verbatim>\<open>maybe_nan\<close> is left out.
\<close>

subsection \<open>Intervals\<close>

text \<open>
  Modelled from the spec: the type \<^verbatim>\<open>Interval::I\<close> of the missing
  \<^verbatim>\<open>libfive/eval/interval.hpp\<close>, an ordered pair \<open>(lo, hi)\<close> of reals.
\<close>

type_synonym interval = "real \<times> real"

text \<open>
  Modelled from the spec: the bound \<open>lo\<close> of an interval (\<^verbatim>\<open>lower()\<close> of the missing interval type).
\<close>

definition lower :: "interval \<Rightarrow> real" where
  "lower I = fst I"

text \<open>
  Modelled from the spec: the bound \<open>hi\<close> of an interval (\<^verbatim>\<open>upper()\<close> of the missing interval type).
\<close>

definition upper :: "interval \<Rightarrow> real" where
  "upper I = snd I"

text \<open>
  Modelled from the spec: membership of a real in the numeric range of an interval of the missing interval type.
\<close>

definition contains :: "interval \<Rightarrow> real \<Rightarrow> bool" where
  "contains I x = (lower I \<le> x \<and> x \<le> upper I)"

text \<open>
  Modelled from the spec: the combinator \<open>min\<close> of the missing interval arithmetic, with
  result \<open>[min(aLo,bLo), min(aHi,bHi)]\<close>.
\<close>

definition interval_min :: "interval \<Rightarrow> interval \<Rightarrow> interval" where
  "interval_min A B = (min (lower A) (lower B), min (upper A) (upper B))"

text \<open>
  Modelled from the spec: the combinator \<open>max\<close> of the missing interval arithmetic,
  symmetric to \<open>min\<close>.
\<close>

definition interval_max :: "interval \<Rightarrow> interval \<Rightarrow> interval" where
  "interval_max A B = (max (lower A) (lower B), max (upper A) (upper B))"

subsection \<open>Clauses and tapes\<close>

text \<open>
  Modelled from the spec: the opcodes \<^verbatim>\<open>Opcode::Opcode\<close>, whose declaration
  is missing. The opcodes of the elementwise operations are opaque: a type \<open>'u\<close> of unary and a
  type \<open>'b\<close> of binary opcodes. The variables and the constants are opcodes without
  operands; \<open>PASS\<close> is the pass-through that a pushed tape puts in the place of a
  decided \<open>min\<close> or \<open>max\<close>.
\<close>

datatype ('u, 'b) opcode =
  CONSTANT real | VAR_X | VAR_Y | VAR_Z | OP_MIN | OP_MAX | PASS | UNARY 'u | BINARY 'b

text \<open>
  Modelled from the spec: the clause \<open>(opcode, id, a, b)\<close> of the missing
  \<^verbatim>\<open>libfive/eval/clause.hpp\<close>, with destination slot \<open>id\<close> and up to two
  source slots; a source slot that the opcode does not use holds any number.
\<close>

datatype ('u, 'b) clause =
  Clause (op_of: "('u, 'b) opcode") (id_of: nat) (a_of: nat) (b_of: nat)

text \<open>
  Modelled from the spec: the class \<^verbatim>\<open>Tape\<close>, which the header only declares:
  a clause sequence with a root id, read back to front, the root clause first in the
  sequence.
\<close>

record ('u, 'b) tape =
  clauses :: "('u, 'b) clause list"
  root :: nat

text \<open>
  Modelled from the spec: the elementwise operations, which the missing bodies of the
  evaluators take from the interval library and the C library. \<open>point1\<close> and
  \<open>point2\<close> compute on values, \<open>interval1\<close> and \<open>interval2\<close> on intervals.
\<close>

record ('u, 'b) operations =
  point1 :: "'u \<Rightarrow> real \<Rightarrow> real"
  point2 :: "'b \<Rightarrow> real \<Rightarrow> real \<Rightarrow> real"
  interval1 :: "'u \<Rightarrow> interval \<Rightarrow> interval"
  interval2 :: "'b \<Rightarrow> interval \<Rightarrow> interval \<Rightarrow> interval"

text \<open>
  Modelled from the spec: the invariant of the data model for the missing interval
  arithmetic: the image of the operation over the input intervals is a subset of the
  returned interval.
\<close>

definition encloses :: "('u, 'b) operations \<Rightarrow> bool" where
  "encloses ops =
     ((\<forall>u A x. contains A x \<longrightarrow> contains (interval1 ops u A) (point1 ops u x))
      \<and> (\<forall>b A B x y. contains A x \<and> contains B y
            \<longrightarrow> contains (interval2 ops b A B) (point2 ops b x y)))"

subsection \<open>Evaluation\<close>

text \<open>
  Modelled from the spec: the per-clause operation of the point evaluator, whose files
  are missing; it stores the value of the clause in slot \<open>id\<close>.
\<close>

definition point_clause ::
  "('u, 'b) operations \<Rightarrow> vec3 \<Rightarrow> ('u, 'b) clause \<Rightarrow> (nat \<Rightarrow> real) \<Rightarrow> (nat \<Rightarrow> real)" where
  "point_clause ops p c f =
     f(id_of c :=
        (case op_of c of
           CONSTANT v \<Rightarrow> v
         | VAR_X \<Rightarrow> vx p
         | VAR_Y \<Rightarrow> vy p
         | VAR_Z \<Rightarrow> vz p
         | OP_MIN \<Rightarrow> min (f (a_of c)) (f (b_of c))
         | OP_MAX \<Rightarrow> max (f (a_of c)) (f (b_of c))
         | PASS \<Rightarrow> f (a_of c)
         | UNARY u \<Rightarrow> point1 ops u (f (a_of c))
         | BINARY b \<Rightarrow> point2 ops b (f (a_of c)) (f (b_of c))))"

text \<open>
  Modelled from the spec: the missing body of the per-clause operation
  \<^verbatim>\<open>IntervalEvaluator::operator()(op, id, a, b)\<close>; it stores the interval of the
  clause in slot \<open>id\<close> of the cache \<^verbatim>\<open>i\<close>.
\<close>

definition interval_clause ::
  "('u, 'b) operations \<Rightarrow> vec3 \<Rightarrow> vec3 \<Rightarrow> ('u, 'b) clause
     \<Rightarrow> (nat \<Rightarrow> interval) \<Rightarrow> (nat \<Rightarrow> interval)" where
  "interval_clause ops lo hi c i =
     i(id_of c :=
        (case op_of c of
           CONSTANT v \<Rightarrow> (v, v)
         | VAR_X \<Rightarrow> (vx lo, vx hi)
         | VAR_Y \<Rightarrow> (vy lo, vy hi)
         | VAR_Z \<Rightarrow> (vz lo, vz hi)
         | OP_MIN \<Rightarrow> interval_min (i (a_of c)) (i (b_of c))
         | OP_MAX \<Rightarrow> interval_max (i (a_of c)) (i (b_of c))
         | PASS \<Rightarrow> i (a_of c)
         | UNARY u \<Rightarrow> interval1 ops u (i (a_of c))
         | BINARY b \<Rightarrow> interval2 ops b (i (a_of c)) (i (b_of c))))"

text \<open>
  Modelled from the spec: the evaluation of a tape at a point by the missing point
  evaluator, bottom-up over the tape, starting from whatever the slots held.
\<close>

definition eval_point ::
  "('u, 'b) operations \<Rightarrow> ('u, 'b) tape \<Rightarrow> vec3 \<Rightarrow> (nat \<Rightarrow> real) \<Rightarrow> real" where
  "eval_point ops t p f0 = foldr (point_clause ops p) (clauses t) f0 (root t)"

text \<open>
  Modelled from the spec: the missing body of \<^verbatim>\<open>IntervalEvaluator::eval(lower,
  upper, tape)\<close>. It populates the per-clause cache bottom-up over the tape, starting
  from whatever the cache held, and returns the interval at the root clause; here it
  returns the populated cache as well.
\<close>

definition eval_interval ::
  "('u, 'b) operations \<Rightarrow> ('u, 'b) tape \<Rightarrow> vec3 \<Rightarrow> vec3 \<Rightarrow> (nat \<Rightarrow> interval)
     \<Rightarrow> interval \<times> (nat \<Rightarrow> interval)" where
  "eval_interval ops t lo hi i0 =
     (let i = foldr (interval_clause ops lo hi) (clauses t) i0 in (i (root t), i))"

subsection \<open>Pushing\<close>

text \<open>
  Modelled from the spec: the source slots that the opcode of a clause reads (part of
  the missing tape code).
\<close>

definition operands :: "('u, 'b) clause \<Rightarrow> nat set" where
  "operands c =
     (case op_of c of
        CONSTANT v \<Rightarrow> {} | VAR_X \<Rightarrow> {} | VAR_Y \<Rightarrow> {} | VAR_Z \<Rightarrow> {}
      | OP_MIN \<Rightarrow> {a_of c, b_of c} | OP_MAX \<Rightarrow> {a_of c, b_of c}
      | PASS \<Rightarrow> {a_of c}
      | UNARY u \<Rightarrow> {a_of c}
      | BINARY b \<Rightarrow> {a_of c, b_of c})"

text \<open>
  Modelled from the spec: the pass-through to a source slot that replaces a decided clause in the missing body of \<^verbatim>\<open>push\<close>.
\<close>

definition pass_through :: "('u, 'b) clause \<Rightarrow> nat \<Rightarrow> ('u, 'b) clause" where
  "pass_through c src = Clause PASS (id_of c) src src"

text \<open>
  Modelled from the spec: the decision of the missing body of \<^verbatim>\<open>push\<close> for one
  clause. A \<open>min\<close> or \<open>max\<close> whose operand intervals are disjoint (\<open>a.hi < b.lo\<close> or
  \<open>b.hi < a.lo\<close>) is replaced by a pass-through to the dominant side.
\<close>

definition specialize :: "(nat \<Rightarrow> interval) \<Rightarrow> ('u, 'b) clause \<Rightarrow> ('u, 'b) clause" where
  "specialize i c =
     (case op_of c of
        OP_MIN \<Rightarrow>
          if upper (i (a_of c)) < lower (i (b_of c)) then pass_through c (a_of c)
          else if upper (i (b_of c)) < lower (i (a_of c)) then pass_through c (b_of c)
          else c
      | OP_MAX \<Rightarrow>
          if upper (i (a_of c)) < lower (i (b_of c)) then pass_through c (b_of c)
          else if upper (i (b_of c)) < lower (i (a_of c)) then pass_through c (a_of c)
          else c
      | _ \<Rightarrow> c)"

text \<open>
  Modelled from the spec: the walk of the missing body of \<^verbatim>\<open>push\<close> from the root
  clause, carrying the set of slots reached so far; a clause whose slot is not reached
  is dropped.
\<close>

fun push_walk ::
  "(nat \<Rightarrow> interval) \<Rightarrow> ('u, 'b) clause list \<Rightarrow> nat set \<Rightarrow> ('u, 'b) clause list" where
  "push_walk i [] active = []"
| "push_walk i (c # cs) active =
     (if id_of c \<in> active
      then let c' = specialize i c in c' # push_walk i cs (active \<union> operands c')
      else push_walk i cs active)"

text \<open>
  Modelled from the spec: the missing body of \<^verbatim>\<open>IntervalEvaluator::push(tape)\<close>,
  which returns a shortened tape based on the most recent evaluation, that is on the
  cache \<^verbatim>\<open>i\<close>.
\<close>

definition push_tape :: "(nat \<Rightarrow> interval) \<Rightarrow> ('u, 'b) tape \<Rightarrow> ('u, 'b) tape" where
  "push_tape i t = t\<lparr>clauses := push_walk i (clauses t) {root t}\<rparr>"

text \<open>
  Modelled from the spec: the missing body of
  \<^verbatim>\<open>IntervalEvaluator::intervalAndPush(lower, upper, tape)\<close>. It evaluates and
  pushes; it returns the interval, the shortened tape and the populated cache.
\<close>

definition intervalAndPush ::
  "('u, 'b) operations \<Rightarrow> ('u, 'b) tape \<Rightarrow> vec3 \<Rightarrow> vec3 \<Rightarrow> (nat \<Rightarrow> interval)
     \<Rightarrow> interval \<times> ('u, 'b) tape \<times> (nat \<Rightarrow> interval)" where
  "intervalAndPush ops t lo hi i0 =
     (case eval_interval ops t lo hi i0 of (r, i) \<Rightarrow> (r, push_tape i t, i))"

text \<open>
  Modelled from the spec: the invariants of the clauses of a tape of the missing tape
  compiler. The source slots of a clause are slots of clauses later in the sequence
  (earlier in the evaluation), and every slot is assigned by one clause only.
\<close>

fun well_formed :: "('u, 'b) clause list \<Rightarrow> bool" where
  "well_formed [] = True"
| "well_formed (c # cs) =
     (operands c \<subseteq> id_of ` set cs \<and> id_of c \<notin> id_of ` set cs \<and> well_formed cs)"

text \<open>
  Modelled from the spec: the invariants of a tape of the missing tape compiler: well-formed clauses, and a root id that is the slot of some clause.
\<close>

definition well_formed_tape :: "('u, 'b) tape \<Rightarrow> bool" where
  "well_formed_tape t = (well_formed (clauses t) \<and> root t \<in> id_of ` set (clauses t))"

text \<open>
  Modelled from the spec: a point of the axis-aligned box \<open>[lower, upper]\<close> (the missing
  \<^verbatim>\<open>Region\<close>).
\<close>

definition in_box :: "vec3 \<Rightarrow> vec3 \<Rightarrow> vec3 \<Rightarrow> bool" where
  "in_box lo hi p =
     (vx lo \<le> vx p \<and> vx p \<le> vx hi \<and> vy lo \<le> vy p \<and> vy p \<le> vy hi
      \<and> vz lo \<le> vz p \<and> vz p \<le> vz hi)"

subsection \<open>A sample instance\<close>

text \<open>
  Negation, addition and subtraction with exact interval bounds, and the tape of
  \<open>min(x, 3 - x)\<close>.
\<close>

datatype unary_sample = Neg

datatype binary_sample = Add | Sub

definition sample_ops :: "(unary_sample, binary_sample) operations" where
  "sample_ops =
     \<lparr>point1 = (\<lambda>u x. - x),
      point2 = (\<lambda>b x y. case b of Add \<Rightarrow> x + y | Sub \<Rightarrow> x - y),
      interval1 = (\<lambda>u A. (- upper A, - lower A)),
      interval2 = (\<lambda>b A B. case b of
                      Add \<Rightarrow> (lower A + lower B, upper A + upper B)
                    | Sub \<Rightarrow> (lower A - upper B, upper A - lower B))\<rparr>"

definition sample_tape :: "(unary_sample, binary_sample) tape" where
  "sample_tape =
     \<lparr>clauses = [Clause OP_MIN 4 1 3, Clause (BINARY Sub) 3 2 1,
                 Clause (CONSTANT 3) 2 0 0, Clause VAR_X 1 0 0],
      root = 4\<rparr>"

section \<open>Vectors: norms and normalisation\<close>

lemma squaredNorm_nonneg: "0 \<le> squaredNorm a"
  by (simp add: squaredNorm_def dot_def)

lemma squaredNorm_eq_0: "squaredNorm a = 0 \<longleftrightarrow> a = Vec3 0 0 0"
proof (cases a)
  case (Vec3 x y z)
  have "x * x + y * y + z * z = 0 \<longleftrightarrow> x = 0 \<and> y = 0 \<and> z = 0"
  proof
    assume h: "x * x + y * y + z * z = 0"
    have "0 \<le> x * x" "0 \<le> y * y" "0 \<le> z * z" by simp_all
    with h have "x * x = 0" "y * y = 0" "z * z = 0" by linarith+
    then show "x = 0 \<and> y = 0 \<and> z = 0" by simp
  qed simp
  with Vec3 show ?thesis by (simp add: squaredNorm_def dot_def)
qed

lemma norm_v_eq_0: "norm_v a = 0 \<longleftrightarrow> a = Vec3 0 0 0"
  by (simp add: norm_v_def squaredNorm_eq_0)

lemma norm_v_nonneg: "0 \<le> norm_v a"
  by (simp add: norm_v_def squaredNorm_nonneg)

lemma vdiv_norm_normalized: "a \<noteq> Vec3 0 0 0 \<Longrightarrow> vdiv a (norm_v a) = normalized a"
  using squaredNorm_nonneg[of a] squaredNorm_eq_0[of a]
  by (simp add: normalized_def norm_v_def)

lemma already_present_iff: "already_present e es \<longleftrightarrow> e \<in> set es"
  by (induction es) auto

lemma isCompatible_at_zero: "isCompatible_at f (Vec3 0 0 0) = (ZERO_VECTOR, False)"
  by (simp add: isCompatible_at_def norm_v_eq_0)

lemma isCompatible_at_nonzero:
  assumes "e \<noteq> Vec3 0 0 0"
  shows "isCompatible_at f e =
     (if length (epsilons f) = 0 then (NO_EPSILONS, True)
      else if length (epsilons f) = 1
           then (ONE_EPSILON, dot (normalized e) (hd (epsilons f)) \<noteq> - 1)
      else if normalized e \<in> set (epsilons f) then (ALREADY_PRESENT, True)
      else (case checkPlanar f (normalized e) of
              PLANAR_FAIL \<Rightarrow> (PLANAR_CASE, False)
            | PLANAR_SUCCESS \<Rightarrow> (PLANAR_CASE, True)
            | NOT_PLANAR \<Rightarrow> (GENERAL_CASE, general_search (epsilons f @ [normalized e]))))"
  using assms
  by (simp add: isCompatible_at_def Let_def norm_v_eq_0 vdiv_norm_normalized already_present_iff)





lemma normalized_unit: "squaredNorm a = 1 \<Longrightarrow> normalized a = a"
  by (cases a) (simp add: normalized_def vdiv_def)

lemma normalized_z_axis:
  "z \<noteq> 0 \<Longrightarrow> normalized (Vec3 0 0 z) = Vec3 0 0 (sgn z)"
proof -
  assume z: "z \<noteq> 0"
  have "sqrt (z * z) = \<bar>z\<bar>" by (rule real_sqrt_abs2)
  moreover have "z / \<bar>z\<bar> = sgn z" by (simp add: sgn_real_def abs_if z)
  ultimately show ?thesis using z by (simp add: normalized_def squaredNorm_def dot_def vdiv_def)
qed

lemma dot_normalized_orthogonal:
  "dot u w = 0 \<Longrightarrow> dot (normalized u) (normalized w) = 0"
proof -
  assume h: "dot u w = 0"
  have "dot (vdiv u s) (vdiv w t) = dot u w / (s * t)" for s t
    by (simp add: dot_def vdiv_def add_divide_distrib)
  moreover have "dot (vdiv u s) w = dot u w / s" for s
    by (simp add: dot_def vdiv_def add_divide_distrib)
  moreover have "dot u (vdiv w t) = dot u w / t" for t
    by (simp add: dot_def vdiv_def add_divide_distrib)
  ultimately show ?thesis using h by (simp add: normalized_def)
qed

lemma dot_commute: "dot a b = dot b a"
  by (simp add: dot_def mult.commute)

section \<open>The small cases of isCompatible\<close>



section \<open>The early return for a stored epsilon\<close>

text \<open>
  Claim C7. With at least two epsilons stored, a nonzero candidate whose normalised
  vector is one of the stored epsilons makes \<open>isCompatible\<close> return true from the
  loop over the stored epsilons: neither \<open>checkPlanar\<close> nor the search over pairs
  decides the result.
\<close>

theorem isCompatible_already_present:
  "2 \<le> length (epsilons f) \<Longrightarrow> e \<noteq> Vec3 0 0 0 \<Longrightarrow> normalized e \<in> set (epsilons f)
   \<Longrightarrow> isCompatible_at f e = (ALREADY_PRESENT, True) \<and> isCompatible f e"
  by (auto simp: isCompatible_def isCompatible_at_nonzero)

theorem isCompatible_already_present_witness:
  "2 \<le> length (epsilons (feature0\<lparr>epsilons := [Vec3 1 0 0, Vec3 (- 1) 0 0]\<rparr>))
   \<and> Vec3 (- 1) 0 0 \<noteq> Vec3 0 0 0
   \<and> normalized (Vec3 (- 1) 0 0) \<in> set (epsilons (feature0\<lparr>epsilons := [Vec3 1 0 0, Vec3 (- 1) 0 0]\<rparr>))
   \<and> isCompatible_at (feature0\<lparr>epsilons := [Vec3 1 0 0, Vec3 (- 1) 0 0]\<rparr>) (Vec3 (- 1) 0 0)
       = (ALREADY_PRESENT, True)"
  using isCompatible_already_present
    [of "feature0\<lparr>epsilons := [Vec3 1 0 0, Vec3 (- 1) 0 0]\<rparr>" "Vec3 (- 1) 0 0"]
  by (simp add: feature0_def normalized_def squaredNorm_def dot_def vdiv_def)

section \<open>push\<close>

lemma push_eq:
  "push f e c =
     (if isCompatible f e
      then (True, f\<lparr>choices := c # choices f,
                    epsilons_by_id := (epsilons_by_id f)(id' c \<mapsto> e),
                    epsilons := (if normalized e \<in> set (epsilons f) then epsilons f
                                 else epsilons f @ [normalized e])\<rparr>)
      else (False, f))"
  by (simp add: push_def Let_def already_present_iff)

lemma push_unit_new:
  assumes "isCompatible f e" "squaredNorm e = 1" "e \<notin> set (epsilons f)"
  shows "fst (push f e c) \<and> epsilons (snd (push f e c)) = epsilons f @ [e]"
  using assms by (simp add: push_eq normalized_unit)

text \<open>
  Claim C3. When \<open>isCompatible\<close> holds, \<open>push\<close> returns true, puts the choice at the
  front of \<open>choices\<close>, and appends the normalised vector to \<open>epsilons\<close> unless it is
  already stored. When \<open>isCompatible\<close> fails, \<open>push\<close> returns false and the object
  is unchanged.
\<close>

theorem push_effect:
  "(isCompatible f e \<longrightarrow>
      fst (push f e c)
      \<and> choices (snd (push f e c)) = c # choices f
      \<and> epsilons (snd (push f e c)) =
          (if normalized e \<in> set (epsilons f) then epsilons f else epsilons f @ [normalized e]))
   \<and> (\<not> isCompatible f e \<longrightarrow> push f e c = (False, f))"
  by (simp add: push_def Let_def already_present_iff)

theorem push_effect_witness:
  "isCompatible feature0 (Vec3 1 0 0)
   \<and> choices (snd (push feature0 (Vec3 1 0 0) \<lparr>id' = 7, choice = 1\<rparr>)) = [\<lparr>id' = 7, choice = 1\<rparr>]
   \<and> epsilons (snd (push feature0 (Vec3 1 0 0) \<lparr>id' = 7, choice = 1\<rparr>)) = [Vec3 1 0 0]
   \<and> \<not> isCompatible (feature0\<lparr>epsilons := [Vec3 1 0 0]\<rparr>) (Vec3 (- 1) 0 0)
   \<and> push (feature0\<lparr>epsilons := [Vec3 1 0 0]\<rparr>) (Vec3 (- 1) 0 0) \<lparr>id' = 7, choice = 1\<rparr>
       = (False, feature0\<lparr>epsilons := [Vec3 1 0 0]\<rparr>)"
  using push_effect[of feature0 "Vec3 1 0 0" "\<lparr>id' = 7, choice = 1\<rparr>"]
        push_effect[of "feature0\<lparr>epsilons := [Vec3 1 0 0]\<rparr>" "Vec3 (- 1) 0 0" "\<lparr>id' = 7, choice = 1\<rparr>"]
  by (simp add: feature0_def isCompatible_def isCompatible_at_def norm_v_def normalized_def
      squaredNorm_def dot_def vdiv_def)

section \<open>checkPlanar never fails\<close>

lemma asin_d_norm_ok: "angle_ok (asin_d (norm_v c))"
  using norm_v_nonneg[of c] arcsin_bounded[of "norm_v c"] arcsin_le_arcsin[of 0 "norm_v c"] 
  by (auto simp: angle_ok_def asin_d_def)

lemma min_d_ok: "angle_ok a \<Longrightarrow> angle_ok b \<Longrightarrow> angle_ok (min_d a b)"
  by (simp add: min_d_def)

lemma max_d_ok: "angle_ok a \<Longrightarrow> angle_ok b \<Longrightarrow> angle_ok (max_d a b)"
  by (simp add: max_d_def)

lemma spread_not_above_pi:
  "angle_ok amin \<Longrightarrow> angle_ok amax \<Longrightarrow> \<not> lt_d (Some pi) (sub_d amax amin)"
  using pi_gt_zero by (cases amin; cases amax) (auto simp: angle_ok_def)

lemma checkPlanar_loop_not_fail:
  "angle_ok amin \<Longrightarrow> angle_ok amax \<Longrightarrow> checkPlanar_loop v cn es amin amax \<noteq> PLANAR_FAIL"
proof (induction es arbitrary: amin amax)
  case Nil
  then show ?case by (simp add: spread_not_above_pi)
next
  case (Cons i es)
  show ?case
    using Cons.IH[of "min_d (asin_d (norm_v (cross i v))) amin" "max_d (asin_d (norm_v (cross i v))) amax"]
          Cons.prems asin_d_norm_ok[of "cross i v"]
    by (simp add: Let_def min_d_ok max_d_ok)
qed

lemma checkPlanar_not_fail: "checkPlanar f v \<noteq> PLANAR_FAIL"
proof -
  have z: "angle_ok (Some 0)" by (simp add: angle_ok_def)
  show ?thesis
  proof (cases "epsilons f")
    case Nil
    then show ?thesis by (simp add: checkPlanar_def)
  next
    case (Cons i rest)
    let ?a = "asin_d (norm_v (cross i (normalized v)))"
    have "checkPlanar_loop (normalized v) (normalized (cross i (normalized v))) rest
            (min_d (Some 0) ?a) (max_d (Some 0) ?a) \<noteq> PLANAR_FAIL"
      by (intro checkPlanar_loop_not_fail min_d_ok max_d_ok z asin_d_norm_ok)
    with Cons show ?thesis by (simp add: checkPlanar_def Let_def)
  qed
qed

lemma isCompatible_at_not_planar_reject: "isCompatible_at f e \<noteq> (PLANAR_CASE, False)"
proof (cases "e = Vec3 0 0 0")
  case True
  then show ?thesis by (simp add: isCompatible_at_zero)
next
  case False
  then show ?thesis
    using checkPlanar_not_fail[of f "normalized e"]
    by (simp add: isCompatible_at_nonzero split: PlanarResult.splits)
qed

lemma cross_norm_unit:
  assumes "squaredNorm a = 1" "squaredNorm b = 1"
  shows "norm_v (cross a b) \<le> 1"
proof -
  have "squaredNorm (cross a b) = squaredNorm a * squaredNorm b - dot a b * dot a b"
    by (cases a; cases b) (simp add: squaredNorm_def dot_def cross_def algebra_simps)
  then have "squaredNorm (cross a b) \<le> 1" using assms by simp
  then show ?thesis by (simp add: norm_v_def)
qed

lemma asin_d_cross_unit:
  assumes "squaredNorm a = 1" "squaredNorm b = 1"
  shows "\<exists>x. asin_d (norm_v (cross a b)) = Some x \<and> 0 \<le> x \<and> x \<le> pi / 2"
proof -
  have "- 1 \<le> norm_v (cross a b)" using norm_v_nonneg[of "cross a b"] by linarith
  then have "asin_d (norm_v (cross a b)) = Some (arcsin (norm_v (cross a b)))"
    using cross_norm_unit[OF assms] by (simp add: asin_d_def)
  then show ?thesis using asin_d_norm_ok[of "cross a b"] by (simp add: angle_ok_def)
qed

text \<open>
  Claim C10. \<open>checkPlanar\<close> never returns \<open>PLANAR_FAIL\<close>: each angle is the arc sine
  of a norm, so it is NaN or lies between \<open>0\<close> and \<open>\<pi>/2\<close> (for unit vectors it is
  never NaN), and the difference of two such angles is never above \<open>\<pi>\<close>. So
  \<open>isCompatible\<close> never returns false from the planar case: it accepts there, or goes
  on to the search over pairs.
\<close>

theorem checkPlanar_never_PLANAR_FAIL:
  "checkPlanar f v \<noteq> PLANAR_FAIL
   \<and> isCompatible_at f v \<noteq> (PLANAR_CASE, False)
   \<and> (\<forall>a. asin_d (norm_v c) = Some a \<longrightarrow> 0 \<le> a \<and> a \<le> pi / 2)
   \<and> (squaredNorm u = 1 \<and> squaredNorm w = 1 \<longrightarrow>
        (\<exists>a. asin_d (norm_v (cross u w)) = Some a \<and> 0 \<le> a \<and> a \<le> pi / 2))"
  using asin_d_norm_ok[of c] asin_d_cross_unit[of u w]
  by (auto simp: checkPlanar_not_fail isCompatible_at_not_planar_reject angle_ok_def)

theorem checkPlanar_never_PLANAR_FAIL_witness:
  "asin_d (norm_v (Vec3 0 1 0)) = Some (pi / 2) \<and> 0 \<le> pi / 2 \<and> pi / 2 \<le> pi / 2
   \<and> squaredNorm (Vec3 1 0 0) = 1 \<and> squaredNorm (Vec3 0 1 0) = 1
   \<and> asin_d (norm_v (cross (Vec3 1 0 0) (Vec3 0 1 0))) = Some (pi / 2)
   \<and> checkPlanar (feature0\<lparr>epsilons := [Vec3 1 0 0, Vec3 0 1 0]\<rparr>) (Vec3 (- 1) 0 0) \<noteq> PLANAR_FAIL"
  using checkPlanar_never_PLANAR_FAIL
    [of "feature0\<lparr>epsilons := [Vec3 1 0 0, Vec3 0 1 0]\<rparr>" "Vec3 (- 1) 0 0" "Vec3 0 1 0"
        "Vec3 1 0 0" "Vec3 0 1 0"]
  by (simp add: asin_d_def norm_v_def squaredNorm_def dot_def cross_def)

section \<open>What checkPlanar computes\<close>

text \<open>
  Since the comparison with \<open>\<pi>\<close> never succeeds, \<open>checkPlanar\<close> is decided by the
  colinearity tests alone.
\<close>

lemma checkPlanar_loop_eq:
  "angle_ok amin \<Longrightarrow> angle_ok amax \<Longrightarrow>
   checkPlanar_loop v cn es amin amax =
     (if \<forall>i \<in> set es. \<bar>dot (normalized (cross i v)) cn\<bar> = 1 then PLANAR_SUCCESS else NOT_PLANAR)"
proof (induction es arbitrary: amin amax)
  case Nil
  then show ?case by (simp add: spread_not_above_pi)
next
  case (Cons i es)
  show ?case
    using Cons.IH[of "min_d (asin_d (norm_v (cross i v))) amin" "max_d (asin_d (norm_v (cross i v))) amax"]
          Cons.prems asin_d_norm_ok[of "cross i v"]
    by (simp add: Let_def min_d_ok max_d_ok)
qed

lemma checkPlanar_eq:
  "checkPlanar f v =
     (case epsilons f of
        [] \<Rightarrow> NOT_PLANAR
      | i # rest \<Rightarrow>
          if rest = [] then NOT_PLANAR
          else if \<forall>j \<in> set rest.
                    \<bar>dot (normalized (cross j (normalized v))) (normalized (cross i (normalized v)))\<bar> = 1
               then PLANAR_SUCCESS else NOT_PLANAR)"
proof (cases "epsilons f")
  case Nil
  then show ?thesis by (simp add: checkPlanar_def)
next
  case (Cons i rest)
  have z: "angle_ok (Some 0)" by (simp add: angle_ok_def)
  let ?a = "asin_d (norm_v (cross i (normalized v)))"
  have ok: "angle_ok (min_d (Some 0) ?a)" "angle_ok (max_d (Some 0) ?a)"
    by (intro min_d_ok max_d_ok z asin_d_norm_ok)+
  show ?thesis
    using Cons checkPlanar_loop_eq[OF ok, of "normalized v" "normalized (cross i (normalized v))" rest]
    by (cases rest) (simp_all add: checkPlanar_def Let_def)
qed

lemma isCompatible_at_not_planar:
  assumes "e \<noteq> Vec3 0 0 0" "squaredNorm e = 1" "epsilons f = i # rest"
    and "e \<notin> set (epsilons f)"
    and "j \<in> set rest" "dot (cross j e) (cross i e) = 0"
  shows "isCompatible_at f e = (GENERAL_CASE, general_search (epsilons f @ [e]))"
proof -
  have u: "normalized e = e" using assms(2) by (rule normalized_unit)
  have "dot (normalized (cross j (normalized e))) (normalized (cross i (normalized e))) = 0"
    unfolding u using assms(6) by (rule dot_normalized_orthogonal)
  then have "\<not> (\<forall>j \<in> set rest.
      \<bar>dot (normalized (cross j (normalized e))) (normalized (cross i (normalized e)))\<bar> = 1)"
    using assms(5) by force
  then have "checkPlanar f e = NOT_PLANAR"
    using assms(3,5) by (auto simp: checkPlanar_eq)
  moreover have "2 \<le> length (epsilons f)" using assms(3,5) by (cases rest) auto
  ultimately show ?thesis
    using assms(1,4) by (auto simp: isCompatible_at_nonzero u)
qed

section \<open>What the search over pairs computes\<close>

lemma c_loop_False: "c_loop nrm a b cs s False = False"
  by (cases cs) auto

lemma c_loop_iff:
  "c_loop nrm a b cs s True \<longleftrightarrow>
     (0 \<le> s \<and> (\<forall>(k, c) \<in> set cs. k \<noteq> a \<and> k \<noteq> b \<longrightarrow> 0 < dot nrm c))
     \<or> (s \<le> 0 \<and> (\<forall>(k, c) \<in> set cs. k \<noteq> a \<and> k \<noteq> b \<longrightarrow> dot nrm c < 0))"
proof (induction cs arbitrary: s)
  case Nil
  then show ?case by auto
next
  case (Cons x cs)
  obtain k c where x: "x = (k, c)" by (cases x)
  show ?case
  proof (cases "a = k \<or> b = k")
    case True
    then show ?thesis using Cons.IH[of s] x by auto
  next
    case False
    consider "dot nrm c < 0" | "0 < dot nrm c" | "dot nrm c = 0" by linarith
    then show ?thesis
    proof cases
      case 1
      then show ?thesis using Cons.IH[of "- 1"] x False
        by (cases "s \<le> 0") (auto simp: c_loop_False)
    next
      case 2
      then show ?thesis using Cons.IH[of 1] x False
        by (cases "0 \<le> s") (auto simp: c_loop_False)
    next
      case 3
      then show ?thesis using x False by (auto simp: c_loop_False)
    qed
  qed
qed

lemma set_enumerate0: "set (enumerate 0 es) = {(k, es ! k) | k. k < length es}"
  by (auto simp: in_set_enumerate_eq)

text \<open>
  The pair passes if and only if every vector at another position lies strictly on one
  and the same side of the plane with normal \<^verbatim>\<open>a->cross(*b)\<close>.
\<close>

lemma pair_passes_iff:
  "pair_passes es i j \<longleftrightarrow>
     ((\<forall>k < length es. k \<noteq> i \<and> k \<noteq> j \<longrightarrow> 0 < dot (cross (es ! i) (es ! j)) (es ! k))
      \<or> (\<forall>k < length es. k \<noteq> i \<and> k \<noteq> j \<longrightarrow> dot (cross (es ! i) (es ! j)) (es ! k) < 0))"
  unfolding pair_passes_def c_loop_iff set_enumerate0 by auto

lemma b_loop_iff:
  "b_loop es i av bs \<longleftrightarrow>
     (\<exists>(j, bv) \<in> set bs. i \<noteq> j \<and> dot av bv \<noteq> - 1
        \<and> c_loop (cross av bv) i j (enumerate 0 es) 0 True)"
  by (induction bs) (auto split: if_splits)

lemma a_loop_iff:
  "a_loop es as \<longleftrightarrow> (\<exists>(i, av) \<in> set as. b_loop es i av (enumerate 0 es))"
  by (induction as) auto

text \<open>
  The general case of \<open>isCompatible\<close>: the search returns true if and only if there are
  two different positions \<open>i\<close>, \<open>j\<close> in \<open>epsilons @ [e]\<close> whose vectors have a dot
  product other than \<open>-1\<close> and for which every vector at another position has a dot
  product with the cross product of strictly one sign.
\<close>

lemma general_search_iff:
  "general_search es \<longleftrightarrow>
     (\<exists>i < length es. \<exists>j < length es.
        i \<noteq> j \<and> dot (es ! i) (es ! j) \<noteq> - 1 \<and> pair_passes es i j)"
  unfolding general_search_def a_loop_iff b_loop_iff set_enumerate0 pair_passes_def
  by auto

lemma general_search_imp_isCompatible:
  assumes "e \<noteq> Vec3 0 0 0" "general_search (epsilons f @ [normalized e])"
  shows "isCompatible f e"
proof -
  consider "length (epsilons f) = 0" | "length (epsilons f) = 1" | "2 \<le> length (epsilons f)"
    by linarith
  then show ?thesis
  proof cases
    case 1
    then show ?thesis using assms(1) by (simp add: isCompatible_def isCompatible_at_nonzero)
  next
    case 2
    then obtain x where x: "epsilons f = [x]" by (cases "epsilons f") auto
    from assms(2) obtain i j where
      "i < Suc (Suc 0)" "j < Suc (Suc 0)" "i \<noteq> j"
      "dot ([x, normalized e] ! i) ([x, normalized e] ! j) \<noteq> - 1"
      unfolding general_search_iff x by auto
    then have "dot (normalized e) x \<noteq> - 1"
      by (cases "i = 0"; cases "j = 0") (auto simp: dot_commute less_Suc_eq)
    then show ?thesis using assms(1) x by (simp add: isCompatible_def isCompatible_at_nonzero)
  next
    case 3
    then show ?thesis
      using assms checkPlanar_not_fail[of f "normalized e"]
      by (auto simp: isCompatible_def isCompatible_at_nonzero split: PlanarResult.splits)
  qed
qed

section \<open>The planar case accepts sets that lie in no half-space\<close>

text \<open>
  The two scenarios of the planar fast path: with \<open>(1,0,0)\<close> and
  \<open>(cos \<pi>/3, sin \<pi>/3, 0)\<close> stored, the candidate \<open>(cos 2\<pi>/3, sin 2\<pi>/3, 0)\<close> is
  accepted in the planar case; the candidate \<open>(-1,0,0)\<close> is rejected, but by the search
  over pairs: its cross product with \<open>(1,0,0)\<close> is zero, so \<open>checkPlanar\<close> reports
  \<open>NOT_PLANAR\<close>.
\<close>

lemma cos_120: "cos (2 * pi / 3) = - (1 / 2)"
proof -
  have "cos (2 * (pi / 3)) = 2 * (cos (pi / 3))\<^sup>2 - 1" by (rule cos_double_cos)
  then show ?thesis by (simp add: cos_60 power2_eq_square)
qed

lemma sin_120: "sin (2 * pi / 3) = sqrt 3 / 2"
proof -
  have "sin (2 * (pi / 3)) = 2 * sin (pi / 3) * cos (pi / 3)" by (rule sin_double)
  then show ?thesis by (simp add: cos_60 sin_60)
qed

lemma planar_scenarios:
  "isCompatible_at (feature0\<lparr>epsilons := [Vec3 1 0 0, Vec3 (cos (pi / 3)) (sin (pi / 3)) 0]\<rparr>)
      (Vec3 (cos (2 * pi / 3)) (sin (2 * pi / 3)) 0) = (PLANAR_CASE, True)
   \<and> isCompatible_at (feature0\<lparr>epsilons := [Vec3 1 0 0, Vec3 (cos (pi / 3)) (sin (pi / 3)) 0]\<rparr>)
      (Vec3 (- 1) 0 0) = (GENERAL_CASE, False)"
proof -
  let ?b = "Vec3 (1 / 2) (sqrt 3 / 2) 0"
  let ?e = "Vec3 (- (1 / 2)) (sqrt 3 / 2) 0"
  let ?w = "Vec3 (- 1) 0 0"
  let ?f = "feature0\<lparr>epsilons := [Vec3 1 0 0, ?b]\<rparr>"
  have ue: "squaredNorm ?e = 1" and uw: "squaredNorm ?w = 1"
    by (simp_all add: squaredNorm_def dot_def)
  have ne: "normalized ?e = ?e" "normalized ?w = ?w" using ue uw by (simp_all add: normalized_unit)
  have nz: "?e \<noteq> Vec3 0 0 0" "?w \<noteq> Vec3 0 0 0" by simp_all
  have c1: "normalized (cross (Vec3 1 0 0) ?e) = Vec3 0 0 1"
    using normalized_z_axis[of "sqrt 3 / 2"] by (simp add: cross_def)
  have c2: "normalized (cross ?b ?e) = Vec3 0 0 1"
    using normalized_z_axis[of "sqrt 3 / 2"] by (simp add: cross_def)
  have 1: "isCompatible_at ?f ?e = (PLANAR_CASE, True)"
    apply (subst isCompatible_at_nonzero[OF nz(1)])
    apply (simp add: ne checkPlanar_eq c1 c2 feature0_def dot_def)
    done
  have "isCompatible_at ?f ?w = (GENERAL_CASE, general_search (epsilons ?f @ [?w]))"
    by (rule isCompatible_at_not_planar[OF _ uw, where j = ?b and i = "Vec3 1 0 0" and rest = "[?b]"])
       (simp_all add: feature0_def dot_def cross_def)
  moreover have "\<not> general_search ([Vec3 1 0 0, ?b] @ [?w])"
    by (simp add: general_search_def dot_def cross_def)
  ultimately have 2: "isCompatible_at ?f ?w = (GENERAL_CASE, False)"
    by (simp add: feature0_def)
  show ?thesis using 1 2 by (simp add: cos_60 sin_60 cos_120 sin_120)
qed

text \<open>
  Claim C1. For coplanar vectors \<open>isCompatible\<close> should return true if and only if
  their angular spread is below \<open>\<pi>\<close>. The code does not: with \<open>(1,0,0)\<close> and
  \<open>(0,1,0)\<close> stored, the unit candidate \<open>(-3/5, -4/5, 0)\<close> is coplanar with them and
  the three directions span more than a half-turn, so that no vector has a positive dot
  product with all three; \<open>isCompatible\<close> returns true in the planar case, where the
  search over pairs returns false on the same three vectors. The two scenarios that the
  claim names come out as it says, the second one in the general case.
\<close>

theorem planar_case_accepts_spread_beyond_pi:
  "isCompatible_at (feature0\<lparr>epsilons := [Vec3 1 0 0, Vec3 0 1 0]\<rparr>) (Vec3 (- (3 / 5)) (- (4 / 5)) 0)
     = (PLANAR_CASE, True)
   \<and> \<not> (\<exists>n. 0 < dot n (Vec3 1 0 0) \<and> 0 < dot n (Vec3 0 1 0) \<and> 0 < dot n (Vec3 (- (3 / 5)) (- (4 / 5)) 0))
   \<and> \<not> general_search [Vec3 1 0 0, Vec3 0 1 0, Vec3 (- (3 / 5)) (- (4 / 5)) 0]
   \<and> isCompatible_at (feature0\<lparr>epsilons := [Vec3 1 0 0, Vec3 (cos (pi / 3)) (sin (pi / 3)) 0]\<rparr>)
        (Vec3 (cos (2 * pi / 3)) (sin (2 * pi / 3)) 0) = (PLANAR_CASE, True)
   \<and> isCompatible_at (feature0\<lparr>epsilons := [Vec3 1 0 0, Vec3 (cos (pi / 3)) (sin (pi / 3)) 0]\<rparr>)
        (Vec3 (- 1) 0 0) = (GENERAL_CASE, False)"
proof -
  let ?e = "Vec3 (- (3 / 5)) (- (4 / 5)) 0"
  have u: "normalized ?e = ?e"
    by (rule normalized_unit) (simp add: squaredNorm_def dot_def)
  have nz: "?e \<noteq> Vec3 0 0 0" by simp
  have c1: "normalized (cross (Vec3 1 0 0) ?e) = Vec3 0 0 (- 1)"
    using normalized_z_axis[of "- (4 / 5)"] by (simp add: cross_def)
  have c2: "normalized (cross (Vec3 0 1 0) ?e) = Vec3 0 0 1"
    using normalized_z_axis[of "3 / 5"] by (simp add: cross_def)
  have "isCompatible_at (feature0\<lparr>epsilons := [Vec3 1 0 0, Vec3 0 1 0]\<rparr>) ?e = (PLANAR_CASE, True)"
    apply (subst isCompatible_at_nonzero[OF nz])
    apply (simp add: u checkPlanar_eq c1 c2 feature0_def dot_def)
    done
  moreover have "\<not> (\<exists>n. 0 < dot n (Vec3 1 0 0) \<and> 0 < dot n (Vec3 0 1 0) \<and> 0 < dot n ?e)"
    by (auto simp: dot_def)
  moreover have "\<not> general_search [Vec3 1 0 0, Vec3 0 1 0, ?e]"
    by (simp add: general_search_def dot_def cross_def)
  ultimately show ?thesis using planar_scenarios by blast
qed

text \<open>
  Claim C2. The scenario of the feature test on the code: with \<open>(1,0,0)\<close> and
  \<open>(0,1,0)\<close> stored, the candidate \<open>(-1,-1,0)\<close>, normalised to \<open>(-1,-1,0) / sqrt 2\<close>, is
  accepted by \<open>isCompatible\<close>, in the planar case, although no vector has a positive dot
  product with all three; the search over pairs of the general case returns false on the
  same three vectors. The candidate \<open>(1,1,0)\<close> is accepted, in the planar case as well.
  The search over pairs itself is as the claim describes it: it returns true if and only
  if some pair of different positions with a dot product other than \<open>-1\<close> passes.
\<close>

theorem feature_test_candidate_accepted:
  "isCompatible_at (feature0\<lparr>epsilons := [Vec3 1 0 0, Vec3 0 1 0]\<rparr>) (Vec3 (- 1) (- 1) 0)
     = (PLANAR_CASE, True)
   \<and> normalized (Vec3 (- 1) (- 1) 0) = Vec3 (- (1 / sqrt 2)) (- (1 / sqrt 2)) 0
   \<and> \<not> (\<exists>n. 0 < dot n (Vec3 1 0 0) \<and> 0 < dot n (Vec3 0 1 0) \<and> 0 < dot n (Vec3 (- 1) (- 1) 0))
   \<and> \<not> general_search [Vec3 1 0 0, Vec3 0 1 0, Vec3 (- (1 / sqrt 2)) (- (1 / sqrt 2)) 0]
   \<and> isCompatible_at (feature0\<lparr>epsilons := [Vec3 1 0 0, Vec3 0 1 0]\<rparr>) (Vec3 1 1 0)
     = (PLANAR_CASE, True)
   \<and> (general_search es \<longleftrightarrow>
        (\<exists>i < length es. \<exists>j < length es.
           i \<noteq> j \<and> dot (es ! i) (es ! j) \<noteq> - 1 \<and> pair_passes es i j))"
proof -
  let ?raw = "Vec3 (- 1) (- 1) 0"
  let ?e = "Vec3 (- (1 / sqrt 2)) (- (1 / sqrt 2)) 0"
  let ?pos = "Vec3 1 1 0"
  let ?p = "Vec3 (1 / sqrt 2) (1 / sqrt 2) 0"
  have n: "normalized ?raw = ?e" "normalized ?pos = ?p"
    by (simp_all add: normalized_def squaredNorm_def dot_def vdiv_def)
  have nz: "?raw \<noteq> Vec3 0 0 0" "?pos \<noteq> Vec3 0 0 0" by simp_all
  have "squaredNorm ?e = 1" "squaredNorm ?p = 1"
    by (simp_all add: squaredNorm_def dot_def)
  then have u: "normalized ?e = ?e" "normalized ?p = ?p" by (simp_all add: normalized_unit)
  have c1: "normalized (cross (Vec3 1 0 0) ?e) = Vec3 0 0 (- 1)"
    using normalized_z_axis[of "- (1 / sqrt 2)"] by (simp add: cross_def)
  have c2: "normalized (cross (Vec3 0 1 0) ?e) = Vec3 0 0 1"
    using normalized_z_axis[of "1 / sqrt 2"] by (simp add: cross_def)
  have d1: "normalized (cross (Vec3 1 0 0) ?p) = Vec3 0 0 1"
    using normalized_z_axis[of "1 / sqrt 2"] by (simp add: cross_def)
  have d2: "normalized (cross (Vec3 0 1 0) ?p) = Vec3 0 0 (- 1)"
    using normalized_z_axis[of "- (1 / sqrt 2)"] by (simp add: cross_def)
  have 1: "isCompatible_at (feature0\<lparr>epsilons := [Vec3 1 0 0, Vec3 0 1 0]\<rparr>) ?raw = (PLANAR_CASE, True)"
    apply (subst isCompatible_at_nonzero[OF nz(1)])
    apply (simp only: n)
    apply (simp add: u checkPlanar_eq c1 c2 feature0_def dot_def)
    done
  have 2: "\<not> general_search [Vec3 1 0 0, Vec3 0 1 0, ?e]"
    by (simp add: general_search_def dot_def cross_def)
  have 3: "\<not> (\<exists>n. 0 < dot n (Vec3 1 0 0) \<and> 0 < dot n (Vec3 0 1 0) \<and> 0 < dot n ?raw)"
    by (auto simp: dot_def)
  have 4: "isCompatible_at (feature0\<lparr>epsilons := [Vec3 1 0 0, Vec3 0 1 0]\<rparr>) ?pos = (PLANAR_CASE, True)"
    apply (subst isCompatible_at_nonzero[OF nz(2)])
    apply (simp only: n)
    apply (simp add: u checkPlanar_eq d1 d2 feature0_def dot_def)
    done
  show ?thesis using 1 2 3 4 n(1) general_search_iff[of es] by blast
qed

section \<open>Compatibility and subsets\<close>

lemma cone5_rejects_e: "\<not> general_search (cone5 @ [Vec3 (4 / 5) 0 (3 / 5)])"
  by (simp add: cone5_def general_search_def dot_def cross_def)

lemma cone5_accepts_v: "general_search (cone5 @ [Vec3 0 (- (3 / 5)) (4 / 5)])"
  by (simp add: cone5_def general_search_def dot_def cross_def)

lemma cone6_accepts_e: "general_search ((cone5 @ [Vec3 0 (- (3 / 5)) (4 / 5)]) @ [Vec3 (4 / 5) 0 (3 / 5)])"
  by (simp add: cone5_def general_search_def dot_def cross_def)

text \<open>The five vectors are stored by five calls of \<open>push\<close> that all return true.\<close>

lemma cone5_reachable:
  "fst (push_all feature0
     [(Vec3 1 0 0, \<lparr>id' = 1, choice = 0\<rparr>), (Vec3 0 1 0, \<lparr>id' = 2, choice = 0\<rparr>),
      (Vec3 0 0 1, \<lparr>id' = 3, choice = 0\<rparr>), (Vec3 (3 / 5) (4 / 5) 0, \<lparr>id' = 4, choice = 0\<rparr>),
      (Vec3 0 (3 / 5) (4 / 5), \<lparr>id' = 5, choice = 0\<rparr>)])
   \<and> epsilons (snd (push_all feature0
     [(Vec3 1 0 0, \<lparr>id' = 1, choice = 0\<rparr>), (Vec3 0 1 0, \<lparr>id' = 2, choice = 0\<rparr>),
      (Vec3 0 0 1, \<lparr>id' = 3, choice = 0\<rparr>), (Vec3 (3 / 5) (4 / 5) 0, \<lparr>id' = 4, choice = 0\<rparr>),
      (Vec3 0 (3 / 5) (4 / 5), \<lparr>id' = 5, choice = 0\<rparr>)])) = cone5"
proof -
  let ?a = "Vec3 1 0 0" let ?b = "Vec3 0 1 0" let ?c = "Vec3 0 0 1"
  let ?m = "Vec3 (3 / 5) (4 / 5) 0" let ?n = "Vec3 0 (3 / 5) (4 / 5)"
  let ?c1 = "\<lparr>id' = 1, choice = 0\<rparr>" let ?c2 = "\<lparr>id' = 2, choice = 0\<rparr>"
  let ?c3 = "\<lparr>id' = 3, choice = 0\<rparr>" let ?c4 = "\<lparr>id' = 4, choice = 0\<rparr>"
  let ?c5 = "\<lparr>id' = 5, choice = 0\<rparr>"
  obtain f1 where f1: "f1 = snd (push feature0 ?a ?c1)" by simp
  obtain f2 where f2: "f2 = snd (push f1 ?b ?c2)" by simp
  obtain f3 where f3: "f3 = snd (push f2 ?c ?c3)" by simp
  obtain f4 where f4: "f4 = snd (push f3 ?m ?c4)" by simp
  obtain f5 where f5: "f5 = snd (push f4 ?n ?c5)" by simp
  have u: "squaredNorm ?a = 1" "squaredNorm ?b = 1" "squaredNorm ?c = 1"
    "squaredNorm ?m = 1" "squaredNorm ?n = 1"
    by (simp_all add: squaredNorm_def dot_def)
  have nn: "normalized ?a = ?a" "normalized ?b = ?b" by (simp_all add: normalized_unit u)
  have "isCompatible feature0 ?a"
    by (simp add: isCompatible_def isCompatible_at_nonzero feature0_def)
  then have p1: "fst (push feature0 ?a ?c1)" "epsilons f1 = [?a]"
    unfolding f1 using push_unit_new[OF _ u(1), of feature0 ?c1] by (simp_all add: feature0_def)
  have "isCompatible f1 ?b"
    by (simp add: isCompatible_def isCompatible_at_nonzero p1 nn dot_def)
  then have p2: "fst (push f1 ?b ?c2)" "epsilons f2 = [?a, ?b]"
    unfolding f2 using push_unit_new[OF _ u(2), of f1 ?c2] by (simp_all add: p1)
  have "isCompatible_at f2 ?c = (GENERAL_CASE, general_search (epsilons f2 @ [?c]))"
    by (rule isCompatible_at_not_planar[OF _ u(3), where j = ?b and i = ?a and rest = "[?b]"])
       (simp_all add: p2 dot_def cross_def)
  moreover have "general_search ([?a, ?b] @ [?c])"
    by (simp add: general_search_def dot_def cross_def)
  ultimately have "isCompatible f2 ?c" by (simp add: isCompatible_def p2)
  then have p3: "fst (push f2 ?c ?c3)" "epsilons f3 = [?a, ?b, ?c]"
    unfolding f3 using push_unit_new[OF _ u(3), of f2 ?c3] by (simp_all add: p2)
  have "isCompatible_at f3 ?m = (GENERAL_CASE, general_search (epsilons f3 @ [?m]))"
    by (rule isCompatible_at_not_planar[OF _ u(4), where j = ?c and i = ?a and rest = "[?b, ?c]"])
       (simp_all add: p3 dot_def cross_def)
  moreover have "general_search ([?a, ?b, ?c] @ [?m])"
    by (simp add: general_search_def dot_def cross_def)
  ultimately have "isCompatible f3 ?m" by (simp add: isCompatible_def p3)
  then have p4: "fst (push f3 ?m ?c4)" "epsilons f4 = [?a, ?b, ?c, ?m]"
    unfolding f4 using push_unit_new[OF _ u(4), of f3 ?c4] by (simp_all add: p3)
  have "isCompatible_at f4 ?n = (GENERAL_CASE, general_search (epsilons f4 @ [?n]))"
    by (rule isCompatible_at_not_planar[OF _ u(5), where j = ?b and i = ?a and rest = "[?b, ?c, ?m]"])
       (simp_all add: p4 dot_def cross_def)
  moreover have "general_search ([?a, ?b, ?c, ?m] @ [?n])"
    by (simp add: general_search_def dot_def cross_def)
  ultimately have "isCompatible f4 ?n" by (simp add: isCompatible_def p4)
  then have p5: "fst (push f4 ?n ?c5)" "epsilons f5 = cone5"
    unfolding f5 using push_unit_new[OF _ u(5), of f4 ?c5] by (simp_all add: p4 cone5_def)
  show ?thesis
    using p1(1) p2(1) p3(1) p4(1) p5 f1 f2 f3 f4 f5
    by (simp add: split_beta)
qed

text \<open>
  Claim C6, as stated, fails. With the five vectors of \<open>cone5\<close> stored by five calls of
  \<open>push\<close> that all return true, the unit
  candidate \<open>e = (4/5, 0, 3/5)\<close> is incompatible and the unit vector
  \<open>v = (0, -3/5, 4/5)\<close> is compatible; after \<open>push v\<close> the candidate \<open>e\<close> is
  compatible. So an incompatible candidate became compatible by pushing a compatible
  vector, and the six stored vectors accept \<open>e\<close> where five of them reject it.
\<close>

theorem compatibility_not_monotone:
  "fst (push_all feature0
     [(Vec3 1 0 0, \<lparr>id' = 1, choice = 0\<rparr>), (Vec3 0 1 0, \<lparr>id' = 2, choice = 0\<rparr>),
      (Vec3 0 0 1, \<lparr>id' = 3, choice = 0\<rparr>), (Vec3 (3 / 5) (4 / 5) 0, \<lparr>id' = 4, choice = 0\<rparr>),
      (Vec3 0 (3 / 5) (4 / 5), \<lparr>id' = 5, choice = 0\<rparr>)])
   \<and> epsilons (snd (push_all feature0
     [(Vec3 1 0 0, \<lparr>id' = 1, choice = 0\<rparr>), (Vec3 0 1 0, \<lparr>id' = 2, choice = 0\<rparr>),
      (Vec3 0 0 1, \<lparr>id' = 3, choice = 0\<rparr>), (Vec3 (3 / 5) (4 / 5) 0, \<lparr>id' = 4, choice = 0\<rparr>),
      (Vec3 0 (3 / 5) (4 / 5), \<lparr>id' = 5, choice = 0\<rparr>)])) = cone5
   \<and> \<not> isCompatible (feature0\<lparr>epsilons := cone5\<rparr>) (Vec3 (4 / 5) 0 (3 / 5))
   \<and> isCompatible (feature0\<lparr>epsilons := cone5\<rparr>) (Vec3 0 (- (3 / 5)) (4 / 5))
   \<and> epsilons (snd (push (feature0\<lparr>epsilons := cone5\<rparr>) (Vec3 0 (- (3 / 5)) (4 / 5))
                        \<lparr>id' = 0, choice = 0\<rparr>))
       = cone5 @ [Vec3 0 (- (3 / 5)) (4 / 5)]
   \<and> isCompatible (snd (push (feature0\<lparr>epsilons := cone5\<rparr>) (Vec3 0 (- (3 / 5)) (4 / 5))
                           \<lparr>id' = 0, choice = 0\<rparr>))
       (Vec3 (4 / 5) 0 (3 / 5))"
proof -
  let ?f = "feature0\<lparr>epsilons := cone5\<rparr>"
  let ?e = "Vec3 (4 / 5) 0 (3 / 5)"
  let ?v = "Vec3 0 (- (3 / 5)) (4 / 5)"
  let ?c = "\<lparr>id' = 0, choice = 0\<rparr>"
  have ue: "squaredNorm ?e = 1" and uv: "squaredNorm ?v = 1"
    by (simp_all add: squaredNorm_def dot_def)
  have eps: "epsilons ?f = Vec3 1 0 0 # tl cone5" by (simp add: cone5_def)
  have e1: "isCompatible_at ?f ?e = (GENERAL_CASE, general_search (epsilons ?f @ [?e]))"
    by (rule isCompatible_at_not_planar[OF _ ue eps, where j = "Vec3 0 1 0"])
       (simp_all add: cone5_def dot_def cross_def)
  have v1: "isCompatible_at ?f ?v = (GENERAL_CASE, general_search (epsilons ?f @ [?v]))"
    by (rule isCompatible_at_not_planar[OF _ uv eps, where j = "Vec3 0 1 0"])
       (simp_all add: cone5_def dot_def cross_def)
  have a: "\<not> isCompatible ?f ?e" using e1 cone5_rejects_e by (simp add: isCompatible_def)
  have b: "isCompatible ?f ?v" using v1 cone5_accepts_v by (simp add: isCompatible_def)
  have nv: "normalized ?v = ?v" using uv by (rule normalized_unit)
  have "?v \<notin> set cone5" by (simp add: cone5_def)
  then have p: "snd (push ?f ?v ?c)
      = ?f\<lparr>choices := [?c], epsilons_by_id := (epsilons_by_id ?f)(0 \<mapsto> ?v),
            epsilons := cone5 @ [?v]\<rparr>"
    using b by (simp add: push_eq nv feature0_def)
  have eps2: "epsilons (snd (push ?f ?v ?c)) = Vec3 1 0 0 # tl (cone5 @ [?v])"
    unfolding p by (simp add: cone5_def)
  have e2: "isCompatible_at (snd (push ?f ?v ?c)) ?e
      = (GENERAL_CASE, general_search (epsilons (snd (push ?f ?v ?c)) @ [?e]))"
    by (rule isCompatible_at_not_planar[OF _ ue eps2, where j = "Vec3 0 1 0"])
       (unfold p, simp_all add: cone5_def dot_def cross_def)
  have c: "isCompatible (snd (push ?f ?v ?c)) ?e"
    using e2 cone6_accepts_e by (simp add: isCompatible_def p)
  from a b c p cone5_reachable show ?thesis by simp
qed

lemma nth_remove_nth:
  "k < length xs \<Longrightarrow> m < length xs - 1 \<Longrightarrow>
   remove_nth k xs ! m = xs ! (if m < k then m else Suc m)"
  by (auto simp: remove_nth_def nth_append min_def)

lemma length_remove_nth: "k < length xs \<Longrightarrow> length (remove_nth k xs) = length xs - 1"
  by (auto simp: remove_nth_def)

lemma remove_nth_append: "k < length xs \<Longrightarrow> remove_nth k (xs @ ys) = remove_nth k xs @ ys"
  by (simp add: remove_nth_def)

lemma pair_passes_remove_nth:
  assumes "pair_passes xs i j" "i < length xs" "j < length xs" "k < length xs" "k \<noteq> i" "k \<noteq> j"
  shows "pair_passes (remove_nth k xs)
           (if i < k then i else i - 1) (if j < k then j else j - 1)"
proof -
  let ?d = "\<lambda>i. if i < k then i else i - 1"
  let ?u = "\<lambda>m. if m < k then m else Suc m"
  let ?xs = "remove_nth k xs"
  have len: "length ?xs = length xs - 1" using assms(4) by (rule length_remove_nth)
  have di: "?d i < length xs - 1" "?d j < length xs - 1" using assms by auto
  have ni: "?xs ! ?d i = xs ! i" "?xs ! ?d j = xs ! j"
    using nth_remove_nth[OF assms(4) di(1)] nth_remove_nth[OF assms(4) di(2)] assms(5,6)
    by (auto split: if_splits)
  have other: "?xs ! m = xs ! ?u m \<and> ?u m < length xs \<and> ?u m \<noteq> i \<and> ?u m \<noteq> j"
    if "m < length xs - 1" "m \<noteq> ?d i" "m \<noteq> ?d j" for m
    using nth_remove_nth[OF assms(4) that(1)] that assms by (auto split: if_splits)
  have pos: "0 < dot (cross (xs ! i) (xs ! j)) (?xs ! m)"
    if h: "\<forall>k<length xs. k \<noteq> i \<and> k \<noteq> j \<longrightarrow> 0 < dot (cross (xs ! i) (xs ! j)) (xs ! k)"
      and m: "m < length xs - 1" "m \<noteq> ?d i" "m \<noteq> ?d j" for m
  proof -
    from other[OF m] have "?xs ! m = xs ! ?u m" "?u m < length xs" "?u m \<noteq> i" "?u m \<noteq> j"
      by blast+
    with h show ?thesis by simp
  qed
  have neg: "dot (cross (xs ! i) (xs ! j)) (?xs ! m) < 0"
    if h: "\<forall>k<length xs. k \<noteq> i \<and> k \<noteq> j \<longrightarrow> dot (cross (xs ! i) (xs ! j)) (xs ! k) < 0"
      and m: "m < length xs - 1" "m \<noteq> ?d i" "m \<noteq> ?d j" for m
  proof -
    from other[OF m] have "?xs ! m = xs ! ?u m" "?u m < length xs" "?u m \<noteq> i" "?u m \<noteq> j"
      by blast+
    with h show ?thesis by simp
  qed
  from assms(1) show ?thesis
    unfolding pair_passes_iff len ni
  proof (elim disjE)
    assume h: "\<forall>k<length xs. k \<noteq> i \<and> k \<noteq> j \<longrightarrow> 0 < dot (cross (xs ! i) (xs ! j)) (xs ! k)"
    show "(\<forall>m<length xs - 1. m \<noteq> ?d i \<and> m \<noteq> ?d j \<longrightarrow> 0 < dot (cross (xs ! i) (xs ! j)) (?xs ! m))
      \<or> (\<forall>m<length xs - 1. m \<noteq> ?d i \<and> m \<noteq> ?d j \<longrightarrow> dot (cross (xs ! i) (xs ! j)) (?xs ! m) < 0)"
      using pos[OF h] by blast
  next
    assume h: "\<forall>k<length xs. k \<noteq> i \<and> k \<noteq> j \<longrightarrow> dot (cross (xs ! i) (xs ! j)) (xs ! k) < 0"
    show "(\<forall>m<length xs - 1. m \<noteq> ?d i \<and> m \<noteq> ?d j \<longrightarrow> 0 < dot (cross (xs ! i) (xs ! j)) (?xs ! m))
      \<or> (\<forall>m<length xs - 1. m \<noteq> ?d i \<and> m \<noteq> ?d j \<longrightarrow> dot (cross (xs ! i) (xs ! j)) (?xs ! m) < 0)"
      using neg[OF h] by blast
  qed
qed

lemma general_search_remove_nth:
  assumes "pair_passes xs i j" "i < length xs" "j < length xs" "i \<noteq> j"
    and "dot (xs ! i) (xs ! j) \<noteq> - 1"
    and "k < length xs" "k \<noteq> i" "k \<noteq> j"
  shows "general_search (remove_nth k xs)"
proof -
  let ?d = "\<lambda>i. if i < k then i else i - 1"
  let ?xs = "remove_nth k xs"
  have len: "length ?xs = length xs - 1" using assms(6) by (rule length_remove_nth)
  have di: "?d i < length xs - 1" "?d j < length xs - 1" "?d i \<noteq> ?d j" using assms by auto
  have ni: "?xs ! ?d i = xs ! i" "?xs ! ?d j = xs ! j"
    using nth_remove_nth[OF assms(6) di(1)] nth_remove_nth[OF assms(6) di(2)] assms(7,8)
    by (auto split: if_splits)
  have "pair_passes ?xs (?d i) (?d j)"
    using assms by (intro pair_passes_remove_nth)
  moreover have "dot (?xs ! ?d i) (?xs ! ?d j) \<noteq> - 1" using ni assms(5) by simp
  ultimately show ?thesis
    unfolding general_search_iff len using di by blast
qed

text \<open>
  Claim C6, amended. If some pair of positions \<open>i\<close>, \<open>j\<close> of \<open>epsilons @ [e]\<close> passes
  the test of the search over pairs (dot product other than \<open>-1\<close>, every other vector
  strictly on one side), then \<open>e\<close> is compatible, and it stays compatible when a stored
  epsilon at any other position is removed.
\<close>

theorem compatible_after_removing_non_witness:
  assumes "e \<noteq> Vec3 0 0 0"
    and "i < length (epsilons f @ [normalized e])" "j < length (epsilons f @ [normalized e])"
    and "i \<noteq> j"
    and "dot ((epsilons f @ [normalized e]) ! i) ((epsilons f @ [normalized e]) ! j) \<noteq> - 1"
    and "pair_passes (epsilons f @ [normalized e]) i j"
    and "k < length (epsilons f)" "k \<noteq> i" "k \<noteq> j"
  shows "isCompatible f e \<and> isCompatible (f\<lparr>epsilons := remove_nth k (epsilons f)\<rparr>) e"
proof -
  let ?xs = "epsilons f @ [normalized e]"
  have "general_search ?xs" unfolding general_search_iff using assms(2-6) by blast
  then have a: "isCompatible f e" using assms(1) by (intro general_search_imp_isCompatible)
  have "general_search (remove_nth k ?xs)"
    using assms by (intro general_search_remove_nth[of ?xs i j k]) auto
  then have "general_search (epsilons (f\<lparr>epsilons := remove_nth k (epsilons f)\<rparr>) @ [normalized e])"
    using assms(7) by (simp add: remove_nth_append)
  then have "isCompatible (f\<lparr>epsilons := remove_nth k (epsilons f)\<rparr>) e"
    using assms(1) by (intro general_search_imp_isCompatible)
  with a show ?thesis by blast
qed

theorem compatible_after_removing_non_witness_witness:
  "Vec3 (4 / 5) 0 (3 / 5) \<noteq> Vec3 0 0 0
   \<and> pair_passes ((cone5 @ [Vec3 0 (- (3 / 5)) (4 / 5)]) @ [Vec3 (4 / 5) 0 (3 / 5)]) 0 5
   \<and> isCompatible (feature0\<lparr>epsilons := cone5 @ [Vec3 0 (- (3 / 5)) (4 / 5)]\<rparr>) (Vec3 (4 / 5) 0 (3 / 5))
   \<and> isCompatible (feature0\<lparr>epsilons := remove_nth 3 (cone5 @ [Vec3 0 (- (3 / 5)) (4 / 5)])\<rparr>)
        (Vec3 (4 / 5) 0 (3 / 5))"
proof -
  let ?f = "feature0\<lparr>epsilons := cone5 @ [Vec3 0 (- (3 / 5)) (4 / 5)]\<rparr>"
  let ?e = "Vec3 (4 / 5) 0 (3 / 5)"
  have n: "normalized ?e = ?e"
    by (rule normalized_unit) (simp add: squaredNorm_def dot_def)
  have xs: "epsilons ?f @ [normalized ?e] = (cone5 @ [Vec3 0 (- (3 / 5)) (4 / 5)]) @ [?e]"
    by (simp add: n)
  have pp: "pair_passes (epsilons ?f @ [normalized ?e]) 0 5"
    unfolding xs pair_passes_def
    by (simp add: cone5_def dot_def cross_def)
  have d: "dot ((epsilons ?f @ [normalized ?e]) ! 0) ((epsilons ?f @ [normalized ?e]) ! 5) \<noteq> - 1"
    unfolding xs by (simp add: cone5_def dot_def)
  have nz: "?e \<noteq> Vec3 0 0 0" by simp
  have l: "0 < length (epsilons ?f @ [normalized ?e])" "5 < length (epsilons ?f @ [normalized ?e])"
    "3 < length (epsilons ?f)"
    unfolding xs by (simp_all add: cone5_def)
  have "isCompatible ?f ?e \<and> isCompatible (?f\<lparr>epsilons := remove_nth 3 (epsilons ?f)\<rparr>) ?e"
    using compatible_after_removing_non_witness[OF nz l(1) l(2) _ d pp l(3)] by simp
  then show ?thesis using pp xs nz by simp
qed

section \<open>The value of EIGENVALUE_CUTOFF\<close>

lemma floor_log2_tenth: "\<lfloor>log 2 \<bar>1 / 10 :: real\<bar>\<rfloor> = - 4"
proof -
  have "(2::real) powr (- 4) = 1 / 16" "(2::real) powr (- 3) = 1 / 8"
    by (simp_all add: powr_minus_divide)
  then have "2 powr (of_int (- 4)) \<le> (1 / 10 :: real) \<and> (1 / 10 :: real) < 2 powr (of_int (- 4 + 1))"
    by simp
  then have "\<lfloor>log 2 (1 / 10 :: real)\<rfloor> = - 4"
    using floor_log_eq_powr_iff[of "1/10" 2 "- 4"] by simp
  then show ?thesis by simp
qed

lemma EIGENVALUE_CUTOFF_value: "EIGENVALUE_CUTOFF = 13421773 / 134217728"
proof -
  have p: "(2::real) powr (- 27) = 1 / 134217728"
    by (simp add: powr_minus_divide)
  have r: "round ((1 / 10 :: real) / (1 / 134217728)) = 13421773"
    by (simp add: round_def floor_unique)
  have "EIGENVALUE_CUTOFF = of_int (round ((1 / 10 :: real) / 2 powr (- 27))) * 2 powr (- 27)"
    unfolding EIGENVALUE_CUTOFF_def round_to_binary32_def Let_def floor_log2_tenth by simp
  also have "\<dots> = of_int (round ((1 / 10 :: real) / (1 / 134217728))) * (1 / 134217728)"
    by (simp only: p)
  also have "\<dots> = 13421773 / 134217728"
    by (simp only: r)
  finally show ?thesis .
qed

text \<open>Claim C9, as stated, fails: the constant is not one tenth.\<close>

theorem EIGENVALUE_CUTOFF_not_one_tenth: "EIGENVALUE_CUTOFF \<noteq> 1 / 10"
  by (simp add: EIGENVALUE_CUTOFF_value)

text \<open>
  Claim C9, amended. \<open>EIGENVALUE_CUTOFF\<close> is the single-precision number nearest to
  one tenth, \<open>13421773 / 2 ^ 27\<close>; it exceeds one tenth by \<open>1 / (5 * 2 ^ 27)\<close>.
\<close>

theorem EIGENVALUE_CUTOFF_is_binary32:
  "EIGENVALUE_CUTOFF = 13421773 / 2 ^ 27 \<and> EIGENVALUE_CUTOFF - 1 / 10 = 1 / (5 * 2 ^ 27)"
  by (simp add: EIGENVALUE_CUTOFF_value)

section \<open>Interval evaluation encloses point evaluation\<close>

lemma foldr_point_other:
  "x \<notin> id_of ` set cs \<Longrightarrow> foldr (point_clause ops p) cs f0 x = f0 x"
  by (induction cs) (auto simp: point_clause_def)

lemma foldr_interval_other:
  "x \<notin> id_of ` set cs \<Longrightarrow> foldr (interval_clause ops lo hi) cs i0 x = i0 x"
  by (induction cs) (auto simp: interval_clause_def)

lemma contains_min:
  "contains A x \<Longrightarrow> contains B y \<Longrightarrow> contains (interval_min A B) (min x y)"
  by (auto simp: contains_def interval_min_def lower_def upper_def min_def)

lemma contains_max:
  "contains A x \<Longrightarrow> contains B y \<Longrightarrow> contains (interval_max A B) (max x y)"
  by (auto simp: contains_def interval_max_def lower_def upper_def max_def)

lemma encloses_unary:
  "encloses ops \<Longrightarrow> contains A x \<Longrightarrow> contains (interval1 ops u A) (point1 ops u x)"
  unfolding encloses_def by blast

lemma encloses_binary:
  "encloses ops \<Longrightarrow> contains A x \<Longrightarrow> contains B y
   \<Longrightarrow> contains (interval2 ops b A B) (point2 ops b x y)"
  unfolding encloses_def by blast

lemma point_clause_other: "x \<noteq> id_of c \<Longrightarrow> point_clause ops p c f x = f x"
  by (simp add: point_clause_def)

lemma interval_clause_other: "x \<noteq> id_of c \<Longrightarrow> interval_clause ops lo hi c i x = i x"
  by (simp add: interval_clause_def)

lemma clause_enclosed:
  assumes "encloses ops" "in_box lo hi p"
    and "\<forall>x \<in> operands c. contains (i x) (f x)"
  shows "contains (interval_clause ops lo hi c i (id_of c)) (point_clause ops p c f (id_of c))"
proof (cases "op_of c")
  case (UNARY u)
  then show ?thesis using assms(3) encloses_unary[OF assms(1)]
    by (simp add: interval_clause_def point_clause_def operands_def)
next
  case (BINARY b)
  then show ?thesis using assms(3) encloses_binary[OF assms(1)]
    by (simp add: interval_clause_def point_clause_def operands_def)
qed (use assms(2,3) in \<open>auto simp: interval_clause_def point_clause_def operands_def in_box_def
       contains_min contains_max, auto simp: contains_def lower_def upper_def\<close>)

lemma slots_enclosed:
  assumes "encloses ops" "in_box lo hi p"
  shows "well_formed cs \<Longrightarrow> x \<in> id_of ` set cs \<Longrightarrow>
     contains (foldr (interval_clause ops lo hi) cs i0 x) (foldr (point_clause ops p) cs f0 x)"
proof (induction cs arbitrary: x)
  case Nil
  then show ?case by simp
next
  case (Cons c cs)
  let ?i = "foldr (interval_clause ops lo hi) cs i0"
  let ?f = "foldr (point_clause ops p) cs f0"
  have IH: "\<forall>y \<in> id_of ` set cs. contains (?i y) (?f y)"
    using Cons.IH Cons.prems(1) by simp
  show ?case
  proof (cases "x = id_of c")
    case True
    have "\<forall>y \<in> operands c. contains (?i y) (?f y)"
      using IH Cons.prems(1) by auto
    then show ?thesis
      using clause_enclosed[OF assms, of c ?i ?f] True by simp
  next
    case False
    then have "x \<in> id_of ` set cs" using Cons.prems(2) by auto
    then have "contains (?i x) (?f x)" using IH by blast
    then show ?thesis using False by (simp add: interval_clause_other point_clause_other)
  qed
qed

lemma sample_ops_encloses: "encloses sample_ops"
  unfolding encloses_def
proof (intro conjI allI impI)
  fix u :: unary_sample and A x
  assume "contains A x"
  then show "contains (interval1 sample_ops u A) (point1 sample_ops u x)"
    by (simp add: sample_ops_def contains_def lower_def upper_def)
next
  fix b :: binary_sample and A B x y
  assume "contains A x \<and> contains B y"
  then show "contains (interval2 sample_ops b A B) (point2 sample_ops b x y)"
    by (cases b) (auto simp: sample_ops_def contains_def lower_def upper_def)
qed

lemma sample_tape_well_formed: "well_formed_tape sample_tape"
  by (simp add: well_formed_tape_def sample_tape_def operands_def)


lemma sample_eval_point:
  "eval_point sample_ops sample_tape (Vec3 (1 / 2) 0 0) (\<lambda>_. 0) = 1 / 2"
  by (simp add: eval_point_def sample_tape_def sample_ops_def point_clause_def)



section \<open>The pushed tape\<close>

lemma well_formed_append:
  "well_formed (pre @ cs) \<Longrightarrow> well_formed cs \<and> id_of ` set pre \<inter> id_of ` set cs = {}"
  by (induction pre) auto

lemma point_clause_cong:
  "\<forall>x \<in> operands c. f x = g x \<Longrightarrow>
   point_clause ops p c f (id_of c) = point_clause ops p c g (id_of c)"
  by (cases "op_of c") (simp_all add: point_clause_def operands_def)

lemma id_of_specialize: "id_of (specialize i c) = id_of c"
  by (cases "op_of c") (simp_all add: specialize_def pass_through_def)

lemma specialize_same_value:
  assumes "\<forall>x \<in> operands c. contains (i x) (f x)"
  shows "point_clause ops p (specialize i c) f (id_of c) = point_clause ops p c f (id_of c)"
proof (cases "op_of c")
  case OP_MIN
  then show ?thesis using assms
    by (auto simp: specialize_def pass_through_def point_clause_def operands_def contains_def)
next
  case OP_MAX
  then show ?thesis using assms
    by (auto simp: specialize_def pass_through_def point_clause_def operands_def contains_def)
qed (simp_all add: specialize_def)

lemma push_walk_agrees:
  assumes enc: "encloses ops" and box: "in_box lo hi p"
  shows "well_formed (pre @ cs) \<Longrightarrow>
         i = foldr (interval_clause ops lo hi) (pre @ cs) i0 \<Longrightarrow>
         x \<in> A \<Longrightarrow>
         foldr (point_clause ops p) (push_walk i cs A) f0 x = foldr (point_clause ops p) cs f0 x"
proof (induction cs arbitrary: pre A x)
  case Nil
  then show ?case by simp
next
  case (Cons c cs)
  let ?r = "foldr (point_clause ops p) cs f0"
  have wf': "well_formed ((pre @ [c]) @ cs)" and i': "i = foldr (interval_clause ops lo hi) ((pre @ [c]) @ cs) i0"
    using Cons.prems(1,2) by simp_all
  note IH = Cons.IH[OF wf' i']
  show ?case
  proof (cases "id_of c \<in> A")
    case False
    then have "x \<noteq> id_of c" using Cons.prems(3) by auto
    then show ?thesis using False IH[OF Cons.prems(3)] by (simp add: point_clause_other)
  next
    case True
    let ?c = "specialize i c"
    let ?A = "A \<union> operands ?c"
    let ?r' = "foldr (point_clause ops p) (push_walk i cs ?A) f0"
    have agree: "?r' y = ?r y" if "y \<in> ?A" for y using IH[OF that] .
    have lhs: "foldr (point_clause ops p) (push_walk i (c # cs) A) f0 = point_clause ops p ?c ?r'"
      using True by (simp add: Let_def)
    show ?thesis
    proof (cases "x = id_of c")
      case False
      then have "point_clause ops p ?c ?r' x = ?r' x" "point_clause ops p c ?r x = ?r x"
        by (simp_all add: point_clause_other id_of_specialize)
      then show ?thesis using lhs agree[of x] Cons.prems(3) by simp
    next
      case xid: True
      from well_formed_append[OF wf'] have wfcs: "well_formed cs"
        and disj: "id_of ` set (pre @ [c]) \<inter> id_of ` set cs = {}" by blast+
      from well_formed_append[OF Cons.prems(1)] have ops_in: "operands c \<subseteq> id_of ` set cs"
        by simp
      have enc_ops: "contains (i y) (?r y)" if "y \<in> operands c" for y
      proof -
        from that ops_in have y: "y \<in> id_of ` set cs" by blast
        with disj have "y \<notin> id_of ` set (pre @ [c])" by blast
        then have "foldr (interval_clause ops lo hi) (pre @ [c])
                     (foldr (interval_clause ops lo hi) cs i0) y
                   = foldr (interval_clause ops lo hi) cs i0 y"
          by (rule foldr_interval_other)
        then have "i y = foldr (interval_clause ops lo hi) cs i0 y"
          unfolding i' by (simp only: foldr_append)
        then show ?thesis using slots_enclosed[OF enc box wfcs y, of i0 f0] by simp
      qed
      have "point_clause ops p ?c ?r' (id_of c) = point_clause ops p ?c ?r (id_of c)"
        using point_clause_cong[of ?c ?r' ?r ops p] agree by (simp add: id_of_specialize)
      also have "\<dots> = point_clause ops p c ?r (id_of c)"
        using enc_ops by (intro specialize_same_value) blast
      finally show ?thesis using lhs xid by simp
    qed
  qed
qed

lemma length_push_walk: "length (push_walk i cs A) \<le> length cs"
  by (induction cs arbitrary: A) (auto simp: Let_def le_SucI)

text \<open>
  The pushed tape is well formed again: every operand of a kept clause is reached, so
  the clause of its slot is kept as well.
\<close>

lemma operands_specialize: "operands (specialize i c) \<subseteq> operands c"
  by (cases "op_of c") (auto simp: specialize_def pass_through_def operands_def)

lemma ids_push_walk_subset: "id_of ` set (push_walk i cs A) \<subseteq> id_of ` set cs"
  by (induction cs arbitrary: A) (auto simp: Let_def id_of_specialize)

lemma ids_push_walk_reached:
  "x \<in> A \<Longrightarrow> x \<in> id_of ` set cs \<Longrightarrow> x \<in> id_of ` set (push_walk i cs A)"
proof (induction cs arbitrary: A)
  case Nil
  then show ?case by simp
next
  case (Cons c cs)
  show ?case
  proof (cases "id_of c \<in> A")
    case True
    show ?thesis
    proof (cases "x = id_of c")
      case True
      with \<open>id_of c \<in> A\<close> show ?thesis by (simp add: Let_def id_of_specialize)
    next
      case False
      with Cons.prems have "x \<in> id_of ` set cs" by auto
      then have "x \<in> id_of ` set (push_walk i cs (A \<union> operands (specialize i c)))"
        using Cons.IH[of "A \<union> operands (specialize i c)"] Cons.prems(1) by blast
      with True show ?thesis by (simp add: Let_def)
    qed
  next
    case False
    with Cons.prems have "x \<in> id_of ` set cs" by auto
    with False show ?thesis using Cons.IH[OF Cons.prems(1)] by simp
  qed
qed

lemma well_formed_push_walk:
  "well_formed cs \<Longrightarrow> well_formed (push_walk i cs A)"
proof (induction cs arbitrary: A)
  case Nil
  then show ?case by simp
next
  case (Cons c cs)
  show ?case
  proof (cases "id_of c \<in> A")
    case False
    then show ?thesis using Cons by simp
  next
    case True
    let ?c = "specialize i c"
    let ?rest = "push_walk i cs (A \<union> operands ?c)"
    have "operands ?c \<subseteq> id_of ` set cs"
      using operands_specialize[of i c] Cons.prems by auto
    then have 1: "operands ?c \<subseteq> id_of ` set ?rest"
      using ids_push_walk_reached[of _ "A \<union> operands ?c" cs i] by blast
    have 2: "id_of ?c \<notin> id_of ` set ?rest"
      using ids_push_walk_subset[of i cs "A \<union> operands ?c"] Cons.prems
      by (auto simp: id_of_specialize)
    have 3: "well_formed ?rest" using Cons by simp
    show ?thesis using True 1 2 3 by (simp add: Let_def)
  qed
qed

lemma well_formed_push_tape: "well_formed_tape t \<Longrightarrow> well_formed_tape (push_tape i t)"
  using well_formed_push_walk[of "clauses t" i "{root t}"]
        ids_push_walk_reached[of "root t" "{root t}" "clauses t" i]
  by (simp add: well_formed_tape_def push_tape_def)

lemma sample_pushed_clauses:
  "clauses (fst (snd (intervalAndPush sample_ops sample_tape (Vec3 0 0 0) (Vec3 1 1 1) (\<lambda>_. (0, 0)))))
   = [Clause PASS 4 1 1, Clause VAR_X 1 0 0]"
  by (simp add: intervalAndPush_def eval_interval_def push_tape_def sample_tape_def sample_ops_def
      interval_clause_def interval_min_def lower_def upper_def Let_def specialize_def
      pass_through_def operands_def)

text \<open>Outside the box the two tapes may differ: the sample tape at \<open>x = 5/2\<close>.\<close>

lemma pushed_tape_differs_outside_box:
  "eval_point sample_ops sample_tape (Vec3 (5 / 2) 0 0) (\<lambda>_. 0) = 1 / 2
   \<and> eval_point sample_ops
        (fst (snd (intervalAndPush sample_ops sample_tape (Vec3 0 0 0) (Vec3 1 1 1) (\<lambda>_. (0, 0)))))
        (Vec3 (5 / 2) 0 0) (\<lambda>_. 0) = 5 / 2"
proof -
  have "eval_point sample_ops (sample_tape\<lparr>clauses := [Clause PASS 4 1 1, Clause VAR_X 1 0 0]\<rparr>)
          (Vec3 (5 / 2) 0 0) (\<lambda>_. 0) = 5 / 2"
    by (simp add: eval_point_def sample_tape_def sample_ops_def point_clause_def)
  moreover have "fst (snd (intervalAndPush sample_ops sample_tape (Vec3 0 0 0) (Vec3 1 1 1) (\<lambda>_. (0, 0))))
      = sample_tape\<lparr>clauses := [Clause PASS 4 1 1, Clause VAR_X 1 0 0]\<rparr>"
    using sample_pushed_clauses
    by (simp add: intervalAndPush_def eval_interval_def push_tape_def Let_def)
  moreover have "eval_point sample_ops sample_tape (Vec3 (5 / 2) 0 0) (\<lambda>_. 0) = 1 / 2"
    by (simp add: eval_point_def sample_tape_def sample_ops_def point_clause_def)
  ultimately show ?thesis by simp
qed

text \<open>
  Claim C4. For operations whose interval results enclose their point results, every
  well-formed tape and every box, the tape that \<open>intervalAndPush\<close> produces for the box
  has, at every point of the box, the value of the original tape; it is not longer
  than the original tape, and it is well formed, so that it can be evaluated and pushed
  again for a box inside this one.
\<close>

theorem pushed_tape_equal_on_box:
  assumes "encloses ops" "well_formed_tape t" "in_box lo hi p"
  shows "eval_point ops (fst (snd (intervalAndPush ops t lo hi i0))) p f0 = eval_point ops t p f0
         \<and> length (clauses (fst (snd (intervalAndPush ops t lo hi i0)))) \<le> length (clauses t)
         \<and> well_formed_tape (fst (snd (intervalAndPush ops t lo hi i0)))"
proof -
  let ?i = "foldr (interval_clause ops lo hi) (clauses t) i0"
  have "foldr (point_clause ops p) (push_walk ?i (clauses t) {root t}) f0 (root t)
        = foldr (point_clause ops p) (clauses t) f0 (root t)"
    using push_walk_agrees[OF assms(1,3), of "[]" "clauses t" ?i i0 "root t" "{root t}" f0] assms(2)
    by (simp add: well_formed_tape_def)
  moreover have "fst (snd (intervalAndPush ops t lo hi i0)) = push_tape ?i t"
    by (simp add: intervalAndPush_def eval_interval_def Let_def)
  ultimately show ?thesis
    using well_formed_push_tape[OF assms(2), of ?i]
    by (simp add: push_tape_def eval_point_def length_push_walk)
qed

theorem pushed_tape_equal_on_box_witness:
  "encloses sample_ops \<and> well_formed_tape sample_tape
   \<and> in_box (Vec3 0 0 0) (Vec3 1 1 1) (Vec3 (1 / 2) 0 0)
   \<and> clauses (fst (snd (intervalAndPush sample_ops sample_tape (Vec3 0 0 0) (Vec3 1 1 1)
         (\<lambda>_. (0, 0))))) = [Clause PASS 4 1 1, Clause VAR_X 1 0 0]
   \<and> eval_point sample_ops
        (fst (snd (intervalAndPush sample_ops sample_tape (Vec3 0 0 0) (Vec3 1 1 1) (\<lambda>_. (0, 0)))))
        (Vec3 (1 / 2) 0 0) (\<lambda>_. 0) = 1 / 2
   \<and> eval_point sample_ops sample_tape (Vec3 (5 / 2) 0 0) (\<lambda>_. 0) = 1 / 2
   \<and> eval_point sample_ops
        (fst (snd (intervalAndPush sample_ops sample_tape (Vec3 0 0 0) (Vec3 1 1 1) (\<lambda>_. (0, 0)))))
        (Vec3 (5 / 2) 0 0) (\<lambda>_. 0) = 5 / 2"
proof -
  have b: "in_box (Vec3 0 0 0) (Vec3 1 1 1) (Vec3 (1 / 2) 0 0)" by (simp add: in_box_def)
  show ?thesis
    using pushed_tape_equal_on_box[OF sample_ops_encloses sample_tape_well_formed b,
        of "\<lambda>_. (0, 0)" "\<lambda>_. 0"] pushed_tape_differs_outside_box
    by (simp add: sample_ops_encloses sample_tape_well_formed b sample_pushed_clauses
        sample_eval_point)
qed

end
